theory Spec2Isabelle
  imports Complex_Main "HOL-Library.Log_Nat"
begin

section \<open>Cosmic Calculator: the simulation core of space.py\<close>

text \<open>
  A shallow embedding of the game logic of \<^verbatim>\<open>src/space.py\<close>: the models and enums,
  \<^verbatim>\<open>Player.calculate\<close>, the spawners, \<^verbatim>\<open>reset_game\<close> and one iteration of the
  \<^verbatim>\<open>while True\<close> loop of \<^verbatim>\<open>SpaceMathGame.run\<close>.

  Conventions of the embedding.
  \<^item> Python's unbounded \<^verbatim>\<open>int\<close> is \<^typ>\<open>int\<close>.
  \<^item> A Python \<^verbatim>\<open>float\<close> is an IEEE 754 double. The floats of \<^verbatim>\<open>Player.calculate\<close>
    are rationals that are doubles: every conversion and every operation rounds its
    exact result to the nearest double, ties to the even significand (\<open>double\<close>), and
    a result beyond the largest double is an infinity, which ends in \<^verbatim>\<open>OverflowError\<close>
    where Python raises it.
  \<^item> The difficulty speed and the speeds derived from it are exact rationals. The
    program multiplies by the double nearest to 1.2; the values differ from the exact
    ones by the representation error of that double only, and none of the comparisons
    with 18 and 7.5 is affected.
  \<^item> Mutation of \<^verbatim>\<open>self\<close> is state passing on the record \<open>SpaceMathGame\<close>.
  \<^item> Exceptions that leave \<^verbatim>\<open>run\<close> are values of \<open>stop\<close> on the left of a sum.
  \<^item> What the loop reads from outside (events, keys, the random module, the wall clock
    behind the bobbing of the clouds) is the record \<open>env\<close>, one per frame.
  \<^item> Drawing, the stars of the background and the unused \<^verbatim>\<open>msg\<close>, \<^verbatim>\<open>msg_timer\<close> have no
    effect on the simulated state and are left out.
\<close>

subsection \<open>Configuration\<close>

definition WIDTH :: int where "WIDTH = 1000"
definition HEIGHT :: int where "HEIGHT = 700"
definition PLAYER_SPEED :: int where "PLAYER_SPEED = 9"
definition BASE_SCROLL_SPEED :: int where "BASE_SCROLL_SPEED = 5"
definition BASE_CLOUD_FREQ :: int where "BASE_CLOUD_FREQ = 160"
definition POWERUP_FREQUENCY :: int where "POWERUP_FREQUENCY = 600"
definition TARGET_NUMBER :: int where "TARGET_NUMBER = 50"

subsection \<open>Models and enums\<close>

datatype GameState = PLAYING | TRANSITION_TO_LANDING | LANDING_SCENE | GAME_OVER

datatype Operation = ADD | SUBTRACT | MULTIPLY | DIVIDE

datatype PowerUpType = SLOW_MOTION | ROUND_NUM | GHOST | INVERT_CONTROLS | RAPID_FIRE

text \<open>
  \<^verbatim>\<open>pygame.Rect\<close>: integer position and size. \<^verbatim>\<open>left\<close> and \<^verbatim>\<open>top\<close> are \<^verbatim>\<open>x\<close> and
  \<^verbatim>\<open>y\<close>; \<^verbatim>\<open>right\<close> and \<^verbatim>\<open>bottom\<close> are derived.
\<close>

record Rect =
  rect_x :: int
  rect_y :: int
  rect_w :: int
  rect_h :: int

definition right :: "Rect \<Rightarrow> int" where
  "right r = rect_x r + rect_w r"

definition bottom :: "Rect \<Rightarrow> int" where
  "bottom r = rect_y r + rect_h r"

text \<open>
  \<^verbatim>\<open>Rect.colliderect\<close>, as pygame computes it: rectangles of zero width or height
  collide with nothing, edges that only touch do not overlap.
\<close>

definition colliderect :: "Rect \<Rightarrow> Rect \<Rightarrow> bool" where
  "colliderect a b =
     (if rect_w a = 0 \<or> rect_h a = 0 \<or> rect_w b = 0 \<or> rect_h b = 0 then False
      else min (rect_x a) (right a) < max (rect_x b) (right b)
         \<and> min (rect_y a) (bottom a) < max (rect_y b) (bottom b)
         \<and> max (rect_x a) (right a) > min (rect_x b) (right b)
         \<and> max (rect_y a) (bottom a) > min (rect_y b) (bottom b))"

record PowerUp =
  pu_rect :: Rect
  pu_type :: PowerUpType
  angle :: int
  hue :: int

record Cloud =
  cloud_rect :: Rect
  op :: Operation
  val :: int
  original_y :: int

record Player =
  rect :: Rect
  score :: int
  figure_x :: int

subsection \<open>Player\<close>

text \<open>\<^verbatim>\<open>Player.__init__\<close>.\<close>

definition new_Player :: Player where
  "new_Player =
     \<lparr>rect = \<lparr>rect_x = 100, rect_y = HEIGHT div 2, rect_w = 100, rect_h = 60\<rparr>,
      score = 0, figure_x = 0\<rparr>"

text \<open>
  What ends \<^verbatim>\<open>run\<close>: \<^verbatim>\<open>sys.exit()\<close> on a quit event, the \<^verbatim>\<open>ValueError\<close> of
  \<^verbatim>\<open>list.remove\<close> on an element that is no longer in the list, and the
  \<^verbatim>\<open>OverflowError\<close> of a conversion between \<^verbatim>\<open>int\<close> and \<^verbatim>\<open>float\<close>.
\<close>

datatype stop = SystemExit | ValueError | OverflowError

subsubsection \<open>Doubles\<close>

text \<open>Rounding to the nearest integer, a value exactly halfway to the even neighbour.\<close>

definition round_half_even :: "rat \<Rightarrow> int" where
  "round_half_even r =
     (let f = \<lfloor>r\<rfloor>; d = r - of_int f
      in if d < 1 / 2 then f
         else if 1 / 2 < d then f + 1
         else if even f then f else f + 1)"

text \<open>
  The binary exponent \<open>\<lfloor>log\<^sub>2 y\<rfloor>\<close> of a positive rational, from the number of bits of
  an integer.
\<close>

definition ilog2 :: "rat \<Rightarrow> int" where
  "ilog2 y = (if 1 \<le> y then bitlen \<lfloor>y\<rfloor> - 1 else - bitlen (\<lceil>1 / y\<rceil> - 1))"

text \<open>
  The unit in the last place of the doubles around \<open>x\<close>: 53 significant bits, and the
  smallest exponent -1022, below which the doubles are subnormal.
\<close>

definition ulp :: "rat \<Rightarrow> rat" where
  "ulp x = power_int 2 (max (ilog2 \<bar>x\<bar>) (- 1022) - 52)"

text \<open>
  The double nearest to \<open>x\<close>, ties to even, with no bound on the exponent; the doubles
  are the values below \<open>2^1024\<close> in absolute value, and a value rounded to \<open>2^1024\<close> or
  beyond stands for an infinity.
\<close>

definition double :: "rat \<Rightarrow> rat" where
  "double x = (if x = 0 then 0 else of_int (round_half_even (x / ulp x)) * ulp x)"

definition finite_double :: "rat \<Rightarrow> bool" where
  "finite_double d = (\<bar>d\<bar> < 2 ^ 1024)"

text \<open>
  The conversion of an \<^verbatim>\<open>int\<close> to a \<^verbatim>\<open>float\<close>, as \<^verbatim>\<open>float(n)\<close> and as the arithmetic
  of a float with an int do it: correctly rounded, \<^verbatim>\<open>OverflowError\<close> beyond the doubles.
\<close>

definition float_of_int :: "int \<Rightarrow> stop + rat" where
  "float_of_int n =
     (let d = double (of_int n) in if finite_double d then Inr d else Inl OverflowError)"

text \<open>
  Python 3's \<^verbatim>\<open>round\<close> on a finite float, with one argument: the nearest integer, and
  of the two neighbours of a value exactly halfway the even one.
\<close>

definition py_round :: "rat \<Rightarrow> int" where
  "py_round r = round_half_even r"

text \<open>
  \<^verbatim>\<open>Player.calculate\<close>. The result pairs the returned penalty flag with the player
  after the call, or is the exception that leaves the call. \<^verbatim>\<open>float(self.score)\<close> comes
  first; the operand is converted by the operation that uses it. \<^verbatim>\<open>res % 1\<close> of a
  finite float that is not negative is \<open>res - \<lfloor>res\<rfloor>\<close>. A negative infinity is
  negative and becomes 0 like every negative result; for a positive infinity
  \<^verbatim>\<open>round(res)\<close> raises \<^verbatim>\<open>OverflowError\<close>. No operation here gives a NaN.
\<close>

definition calculate :: "Operation \<Rightarrow> int \<Rightarrow> Player \<Rightarrow> stop + bool \<times> Player" where
  "calculate opr v p =
     (case float_of_int (score p) of
        Inl x \<Rightarrow> Inl x
      | Inr res \<Rightarrow>
          if opr = DIVIDE \<and> v = 0 then Inr (False, p)
          else
            (case float_of_int v of
               Inl x \<Rightarrow> Inl x
             | Inr fv \<Rightarrow>
                 let res = double (case opr of
                                     ADD \<Rightarrow> res + fv
                                   | SUBTRACT \<Rightarrow> res - fv
                                   | MULTIPLY \<Rightarrow> res * fv
                                   | DIVIDE \<Rightarrow> res / fv);
                     res = (if res < 0 then 0 else res);
                     is_decimal_penalty = (res - of_int \<lfloor>res\<rfloor> \<noteq> 0)
                 in if finite_double res
                    then Inr (is_decimal_penalty, p\<lparr>score := py_round res\<rparr>)
                    else Inl OverflowError))"

text \<open>
  The contract of the arithmetic engine in the words of the specification, for
  comparison with \<open>calculate\<close>: the raw result of the operation, the clamp at zero, and
  what it means for a rational to be no integer.
\<close>

definition raw_result :: "int \<Rightarrow> Operation \<Rightarrow> int \<Rightarrow> rat" where
  "raw_result S opr V =
     (case opr of
        ADD \<Rightarrow> of_int (S + V)
      | SUBTRACT \<Rightarrow> of_int (S - V)
      | MULTIPLY \<Rightarrow> of_int (S * V)
      | DIVIDE \<Rightarrow> Fract S V)"

definition clamped_result :: "int \<Rightarrow> Operation \<Rightarrow> int \<Rightarrow> rat" where
  "clamped_result S opr V = max 0 (raw_result S opr V)"

definition is_integer :: "rat \<Rightarrow> bool" where
  "is_integer r = (of_int \<lfloor>r\<rfloor> = r)"

text \<open>
  An integer that is a double: \<^verbatim>\<open>float\<close> converts it to a float of the same value. The
  score of a player is 0 or the \<^verbatim>\<open>round\<close> of a finite double, and is such an integer.
\<close>

definition exact_float :: "int \<Rightarrow> bool" where
  "exact_float n = (float_of_int n = Inr (of_int n))"

subsection \<open>The game engine\<close>

text \<open>
  The fields of \<^verbatim>\<open>SpaceMathGame\<close> that the simulation reads or writes. A difficulty
  speed is an \<^verbatim>\<open>int\<close> until the first penalty and a \<^verbatim>\<open>float\<close> afterwards.
\<close>

record SpaceMathGame =
  state :: GameState
  player :: Player
  clouds :: "Cloud list"
  powerups :: "PowerUp list"
  target :: int
  timer_spawn_cloud :: int
  timer_spawn_powerup :: int
  current_difficulty_speed :: rat
  timer_slow_motion :: int
  timer_ghost_mode :: int
  timer_inverted :: int
  timer_rapid_fire :: int
  lander_y :: int

text \<open>
  What one frame reads from outside. \<open>draws e i\<close> holds the results of the calls of the
  random module for lane \<open>i\<close> of a cloud wall: \<open>pick\<close> is the index \<^verbatim>\<open>random.choice\<close>
  takes (reduced modulo the length of the list), \<open>val_1_9\<close> and \<open>val_2_4\<close> the results
  of \<^verbatim>\<open>randint(1, 9)\<close> and \<^verbatim>\<open>randint(2, 4)\<close>. \<open>roll\<close> and \<open>pu_y\<close> are the results of
  \<^verbatim>\<open>random.random()\<close> and \<^verbatim>\<open>randint(50, HEIGHT - 50)\<close> in \<^verbatim>\<open>spawn_powerup\<close>.
  \<open>bob e k c\<close> is the value \<^verbatim>\<open>int(self.original_y + wave)\<close> that \<^verbatim>\<open>Cloud.move\<close>
  computes from the wall clock for the cloud \<open>c\<close>, the \<open>k\<close>-th of the frame's snapshot.
\<close>

datatype event = QUIT | KEYDOWN_SPACE | OTHER_EVENT

record lane_draw =
  pick :: nat
  val_1_9 :: int
  val_2_4 :: int

record env =
  events :: "event list"
  K_UP :: bool
  K_DOWN :: bool
  draws :: "nat \<Rightarrow> lane_draw"
  roll :: rat
  pu_y :: int
  bob :: "nat \<Rightarrow> Cloud \<Rightarrow> int"

subsubsection \<open>Spawners\<close>

definition spawn_cloud :: "env \<Rightarrow> int \<Rightarrow> Operation list \<Rightarrow> nat \<Rightarrow> Cloud" where
  "spawn_cloud e wall_x ops i =
     (let lane_height = HEIGHT div 3;
          opr = ops ! (pick (draws e i) mod length ops);
          v = val_1_9 (draws e i);
          v = (if opr = MULTIPLY then val_2_4 (draws e i) else v);
          y_pos = int i * lane_height + lane_height div 2 - 60
      in \<lparr>cloud_rect = \<lparr>rect_x = wall_x, rect_y = y_pos, rect_w = 180, rect_h = 120\<rparr>,
          op = opr, val = v, original_y = y_pos\<rparr>)"

definition spawn_cloud_wall :: "env \<Rightarrow> int \<Rightarrow> SpaceMathGame \<Rightarrow> SpaceMathGame" where
  "spawn_cloud_wall e x_offset s =
     (let wall_x = WIDTH + 100 + x_offset;
          ops = [ADD, SUBTRACT, MULTIPLY] @ (if score (player s) > 10 then [DIVIDE] else [])
      in s\<lparr>clouds := clouds s @ map (spawn_cloud e wall_x ops) [0..<3]\<rparr>)"

definition spawn_powerup :: "env \<Rightarrow> SpaceMathGame \<Rightarrow> SpaceMathGame" where
  "spawn_powerup e s =
     (let p_type =
            (if current_difficulty_speed s > of_int BASE_SCROLL_SPEED * (3 / 2)
             then (if roll e < 1 / 2 then ROUND_NUM
                   else if roll e < 7 / 10 then SLOW_MOTION
                   else if roll e < 17 / 20 then GHOST
                   else INVERT_CONTROLS)
             else (if roll e < 1 / 4 then SLOW_MOTION
                   else if roll e < 1 / 2 then ROUND_NUM
                   else if roll e < 7 / 10 then GHOST
                   else if roll e < 9 / 10 then INVERT_CONTROLS
                   else RAPID_FIRE))
      in s\<lparr>powerups := powerups s @
            [\<lparr>pu_rect = \<lparr>rect_x = WIDTH + 50, rect_y = pu_y e, rect_w = 40, rect_h = 40\<rparr>,
              pu_type = p_type, angle = 0, hue = 0\<rparr>]\<rparr>)"

subsubsection \<open>Reset and events\<close>

definition reset_game :: "env \<Rightarrow> SpaceMathGame \<Rightarrow> SpaceMathGame" where
  "reset_game e s =
     (let s = s\<lparr>state := PLAYING, player := new_Player, clouds := [], powerups := [],
                target := TARGET_NUMBER\<rparr>;
          s = spawn_cloud_wall e 200 s
      in s\<lparr>timer_spawn_cloud := 0, timer_spawn_powerup := 0,
            current_difficulty_speed := of_int BASE_SCROLL_SPEED,
            timer_slow_motion := 0, timer_ghost_mode := 0, timer_inverted := 0,
            timer_rapid_fire := 0, lander_y := - 100\<rparr>)"

definition handle_event :: "env \<Rightarrow> event \<Rightarrow> SpaceMathGame \<Rightarrow> stop + SpaceMathGame" where
  "handle_event e ev s =
     (case ev of
        QUIT \<Rightarrow> Inl SystemExit
      | KEYDOWN_SPACE \<Rightarrow>
          if state s = LANDING_SCENE \<or> state s = GAME_OVER then Inr (reset_game e s)
          else Inr s
      | OTHER_EVENT \<Rightarrow> Inr s)"

fun process_events :: "env \<Rightarrow> event list \<Rightarrow> SpaceMathGame \<Rightarrow> stop + SpaceMathGame" where
  "process_events e [] s = Inr s"
| "process_events e (ev # evs) s =
     (case handle_event e ev s of Inl x \<Rightarrow> Inl x | Inr s' \<Rightarrow> process_events e evs s')"

subsubsection \<open>One frame in state PLAYING\<close>

text \<open>The section MOVEMENT: the keys move the ship, swapped while the controls are inverted.\<close>

definition move_player :: "int \<Rightarrow> SpaceMathGame \<Rightarrow> SpaceMathGame" where
  "move_player dy s =
     s\<lparr>player := (player s)\<lparr>rect := (rect (player s))\<lparr>rect_y := rect_y (rect (player s)) + dy\<rparr>\<rparr>\<rparr>"

definition movement :: "env \<Rightarrow> SpaceMathGame \<Rightarrow> SpaceMathGame" where
  "movement e s =
     (if timer_inverted s > 0 then
        (let s = (if K_UP e \<and> bottom (rect (player s)) < HEIGHT
                  then move_player PLAYER_SPEED s else s)
         in if K_DOWN e \<and> rect_y (rect (player s)) > 0
            then move_player (- PLAYER_SPEED) s else s)
      else
        (let s = (if K_UP e \<and> rect_y (rect (player s)) > 0
                  then move_player (- PLAYER_SPEED) s else s)
         in if K_DOWN e \<and> bottom (rect (player s)) < HEIGHT
            then move_player PLAYER_SPEED s else s))"

text \<open>
  The section CALCULATE SPEEDS, with the decrement of the four effect timers: the
  result is \<open>(effective_speed, spawn_freq, s)\<close>.
\<close>

definition calculate_speeds :: "SpaceMathGame \<Rightarrow> rat \<times> int \<times> SpaceMathGame" where
  "calculate_speeds s =
     (let effective_speed = current_difficulty_speed s;
          spawn_freq = BASE_CLOUD_FREQ;
          (effective_speed, s) =
            (if timer_slow_motion s > 0
             then (effective_speed * (1 / 2), s\<lparr>timer_slow_motion := timer_slow_motion s - 1\<rparr>)
             else (effective_speed, s));
          (effective_speed, spawn_freq, s) =
            (if timer_rapid_fire s > 0
             then (12, 40, s\<lparr>timer_rapid_fire := timer_rapid_fire s - 1\<rparr>)
             else (effective_speed, spawn_freq, s));
          s = (if timer_ghost_mode s > 0 then s\<lparr>timer_ghost_mode := timer_ghost_mode s - 1\<rparr>
               else s);
          s = (if timer_inverted s > 0 then s\<lparr>timer_inverted := timer_inverted s - 1\<rparr>
               else s)
      in (effective_speed, spawn_freq, s))"

text \<open>The section SPAWNERS.\<close>

definition spawners :: "env \<Rightarrow> int \<Rightarrow> SpaceMathGame \<Rightarrow> SpaceMathGame" where
  "spawners e spawn_freq s =
     (let s = s\<lparr>timer_spawn_cloud := timer_spawn_cloud s + 1\<rparr>;
          s = (if timer_spawn_cloud s > spawn_freq
               then (spawn_cloud_wall e 0 s)\<lparr>timer_spawn_cloud := 0\<rparr> else s);
          s = s\<lparr>timer_spawn_powerup := timer_spawn_powerup s + 1\<rparr>
      in if timer_spawn_powerup s > POWERUP_FREQUENCY
         then (spawn_powerup e s)\<lparr>timer_spawn_powerup := 0\<rparr> else s)"

text \<open>
  \<^verbatim>\<open>PowerUp.move\<close> and \<^verbatim>\<open>Cloud.move\<close>. The speed may be a float while the
  coordinates of a \<^verbatim>\<open>Rect\<close> are integers: \<open>px\<close> is the conversion pygame applies when
  \<^verbatim>\<open>rect.x\<close> is assigned, a parameter of the model.
\<close>

definition PowerUp_move :: "(rat \<Rightarrow> int) \<Rightarrow> rat \<Rightarrow> PowerUp \<Rightarrow> PowerUp" where
  "PowerUp_move px speed pu =
     pu\<lparr>pu_rect := (pu_rect pu)\<lparr>rect_x := px (of_int (rect_x (pu_rect pu)) - speed)\<rparr>,
        angle := angle pu + 5,
        hue := (hue pu + 5) mod 360\<rparr>"

definition Cloud_move :: "(rat \<Rightarrow> int) \<Rightarrow> rat \<Rightarrow> int \<Rightarrow> Cloud \<Rightarrow> Cloud" where
  "Cloud_move px scroll_speed new_y c =
     c\<lparr>cloud_rect := (cloud_rect c)\<lparr>rect_x := px (of_int (rect_x (cloud_rect c)) - scroll_speed),
                                    rect_y := new_y\<rparr>\<rparr>"

text \<open>The effect of a power-up that the ship has touched.\<close>

definition collect :: "PowerUpType \<Rightarrow> SpaceMathGame \<Rightarrow> SpaceMathGame" where
  "collect t s =
     (case t of
        SLOW_MOTION \<Rightarrow> s\<lparr>timer_slow_motion := 600\<rparr>
      | GHOST \<Rightarrow> s\<lparr>timer_ghost_mode := 300\<rparr>
      | ROUND_NUM \<Rightarrow> s\<lparr>current_difficulty_speed := of_int BASE_SCROLL_SPEED\<rparr>
      | INVERT_CONTROLS \<Rightarrow> s\<lparr>timer_inverted := 300\<rparr>
      | RAPID_FIRE \<Rightarrow> s\<lparr>timer_rapid_fire := 300\<rparr>)"

text \<open>
  The loops of the section COLLISIONS run over a snapshot of the list and remove
  elements from the list itself, with \<^verbatim>\<open>list.remove\<close>. The elements are distinct
  objects compared by identity, so what is left of the list is the snapshot without
  the removed elements, in the order of the snapshot: the loops return the elements
  they keep, each as its \<^verbatim>\<open>move\<close> left it.

  One power-up: the state after it, and whether it stays in the list.
\<close>

definition powerup_step ::
  "(rat \<Rightarrow> int) \<Rightarrow> rat \<Rightarrow> PowerUp \<Rightarrow> SpaceMathGame \<Rightarrow> SpaceMathGame \<times> PowerUp option" where
  "powerup_step px speed pu s =
     (let pu = PowerUp_move px speed pu
      in if colliderect (rect (player s)) (pu_rect pu) then (collect (pu_type pu) s, None)
         else if right (pu_rect pu) < 0 then (s, None)
         else (s, Some pu))"

fun powerup_loop ::
  "(rat \<Rightarrow> int) \<Rightarrow> rat \<Rightarrow> PowerUp list \<Rightarrow> SpaceMathGame \<Rightarrow> SpaceMathGame \<times> PowerUp list" where
  "powerup_loop px speed [] s = (s, [])"
| "powerup_loop px speed (pu # pus) s =
     (case powerup_step px speed pu s of
        (s, kept) \<Rightarrow>
          (case powerup_loop px speed pus s of
             (s, rest) \<Rightarrow> (s, (case kept of None \<Rightarrow> rest | Some pu \<Rightarrow> pu # rest))))"

text \<open>
  The branch of a cloud collision outside ghost mode, without the removal of the
  cloud: the score, the penalty on the difficulty speed, the check of the target. An
  exception of \<^verbatim>\<open>calculate\<close> leaves the loop and \<^verbatim>\<open>run\<close>.
\<close>

definition resolve_collision :: "Cloud \<Rightarrow> SpaceMathGame \<Rightarrow> stop + SpaceMathGame" where
  "resolve_collision c s =
     (case calculate (op c) (val c) (player s) of
        Inl x \<Rightarrow> Inl x
      | Inr (penalty, p) \<Rightarrow>
          Inr (let s = s\<lparr>player := p\<rparr>;
                   s = (if penalty \<and> timer_rapid_fire s = 0
                        then (let d = current_difficulty_speed s * (6 / 5)
                              in s\<lparr>current_difficulty_speed := (if d > 18 then 18 else d)\<rparr>)
                        else s)
               in if score (player s) = target s then s\<lparr>state := TRANSITION_TO_LANDING\<rparr>
                  else s))"

text \<open>
  One cloud. The first \<^verbatim>\<open>if\<close> may remove the cloud (\<open>removed\<close>); the second
  removes it when it has left the screen, which raises if it is gone already.
\<close>

definition cloud_step ::
  "(rat \<Rightarrow> int) \<Rightarrow> rat \<Rightarrow> int \<Rightarrow> Cloud \<Rightarrow> SpaceMathGame \<Rightarrow> stop + SpaceMathGame \<times> Cloud option"
  where
  "cloud_step px speed new_y c s =
     (let c = Cloud_move px speed new_y c
      in case (if colliderect (rect (player s)) (cloud_rect c)
               then (if timer_ghost_mode s > 0 then Inr (s, False)
                     else (case resolve_collision c s of
                             Inl x \<Rightarrow> Inl x
                           | Inr s \<Rightarrow> Inr (s, True)))
               else Inr (s, False)) of
           Inl x \<Rightarrow> Inl x
         | Inr (s, removed) \<Rightarrow>
             if right (cloud_rect c) < 0
             then (if removed then Inl ValueError else Inr (s, None))
             else Inr (s, if removed then None else Some c))"

fun cloud_loop ::
  "(rat \<Rightarrow> int) \<Rightarrow> env \<Rightarrow> rat \<Rightarrow> nat \<Rightarrow> Cloud list \<Rightarrow> SpaceMathGame
     \<Rightarrow> stop + SpaceMathGame \<times> Cloud list" where
  "cloud_loop px e speed k [] s = Inr (s, [])"
| "cloud_loop px e speed k (c # cs) s =
     (case cloud_step px speed (bob e k c) c s of
        Inl x \<Rightarrow> Inl x
      | Inr (s, kept) \<Rightarrow>
          (case cloud_loop px e speed (Suc k) cs s of
             Inl x \<Rightarrow> Inl x
           | Inr (s, rest) \<Rightarrow> Inr (s, (case kept of None \<Rightarrow> rest | Some c \<Rightarrow> c # rest))))"

text \<open>The section COLLISIONS: the power-ups, then the clouds.\<close>

definition collisions ::
  "(rat \<Rightarrow> int) \<Rightarrow> env \<Rightarrow> rat \<Rightarrow> SpaceMathGame \<Rightarrow> stop + SpaceMathGame" where
  "collisions px e effective_speed s =
     (case powerup_loop px effective_speed (powerups s) s of
        (s, kept) \<Rightarrow>
          (let s = s\<lparr>powerups := kept\<rparr>
           in case cloud_loop px e effective_speed 0 (clouds s) s of
                Inl x \<Rightarrow> Inl x
              | Inr (s, kept) \<Rightarrow> Inr (s\<lparr>clouds := kept\<rparr>)))"

text \<open>
  The frame up to the section COLLISIONS: the effective speed of the frame, and the
  state that the two loops start from.
\<close>

definition before_collisions :: "env \<Rightarrow> SpaceMathGame \<Rightarrow> rat \<times> SpaceMathGame" where
  "before_collisions e s =
     (case calculate_speeds (movement e s) of
        (effective_speed, spawn_freq, s) \<Rightarrow> (effective_speed, spawners e spawn_freq s))"

definition playing_frame ::
  "(rat \<Rightarrow> int) \<Rightarrow> env \<Rightarrow> SpaceMathGame \<Rightarrow> stop + SpaceMathGame" where
  "playing_frame px e s =
     (case before_collisions e s of
        (effective_speed, s) \<Rightarrow> collisions px e effective_speed s)"

subsubsection \<open>The other states, and the frame\<close>

definition transition_frame :: "SpaceMathGame \<Rightarrow> SpaceMathGame" where
  "transition_frame s =
     (let s = s\<lparr>player := (player s)\<lparr>rect := (rect (player s))\<lparr>rect_x := rect_x (rect (player s)) + 10\<rparr>\<rparr>\<rparr>
      in if rect_x (rect (player s)) > WIDTH then s\<lparr>state := LANDING_SCENE\<rparr> else s)"

definition animate_stick_figure :: "SpaceMathGame \<Rightarrow> SpaceMathGame" where
  "animate_stick_figure s =
     (let start_x = 350; flag_pos_x = 600
      in if figure_x (player s) < flag_pos_x - start_x
         then s\<lparr>player := (player s)\<lparr>figure_x := figure_x (player s) + 2\<rparr>\<rparr>
         else s)"

definition animate_landing_scene :: "SpaceMathGame \<Rightarrow> SpaceMathGame" where
  "animate_landing_scene s =
     (let target_y = HEIGHT - 200 - 80
      in if lander_y s < target_y then s\<lparr>lander_y := lander_y s + 3\<rparr>
         else animate_stick_figure (s\<lparr>lander_y := target_y\<rparr>))"

text \<open>One iteration of the loop of \<^verbatim>\<open>run\<close>.\<close>

definition frame :: "(rat \<Rightarrow> int) \<Rightarrow> env \<Rightarrow> SpaceMathGame \<Rightarrow> stop + SpaceMathGame" where
  "frame px e s =
     (case process_events e (events e) s of
        Inl x \<Rightarrow> Inl x
      | Inr s \<Rightarrow>
          (case state s of
             PLAYING \<Rightarrow> playing_frame px e s
           | TRANSITION_TO_LANDING \<Rightarrow> Inr (transition_frame s)
           | LANDING_SCENE \<Rightarrow> Inr (animate_landing_scene s)
           | GAME_OVER \<Rightarrow> Inr s))"

text \<open>A run of frames, one environment per frame, until something ends the program.\<close>

fun frames :: "(rat \<Rightarrow> int) \<Rightarrow> env list \<Rightarrow> SpaceMathGame \<Rightarrow> stop + SpaceMathGame" where
  "frames px [] s = Inr s"
| "frames px (e # es) s =
     (case frame px e s of Inl x \<Rightarrow> Inl x | Inr s' \<Rightarrow> frames px es s')"

subsection \<open>Notions used in the statements\<close>

text \<open>
  The clouds of a snapshot as \<^verbatim>\<open>Cloud.move\<close> leaves them, the first of them being
  the \<open>k\<close>-th of the frame.
\<close>

fun moved_clouds :: "(rat \<Rightarrow> int) \<Rightarrow> env \<Rightarrow> rat \<Rightarrow> nat \<Rightarrow> Cloud list \<Rightarrow> Cloud list" where
  "moved_clouds px e speed k [] = []"
| "moved_clouds px e speed k (c # cs) =
     Cloud_move px speed (bob e k c) c # moved_clouds px e speed (Suc k) cs"

text \<open>
  The ghost timer as the loop over the clouds finds it in a frame that starts in \<open>s\<close>:
  after the decrement of the frame and after the power-ups collected in the frame.
\<close>

definition ghost_timer_at_clouds :: "(rat \<Rightarrow> int) \<Rightarrow> env \<Rightarrow> SpaceMathGame \<Rightarrow> int" where
  "ghost_timer_at_clouds px e s =
     (case before_collisions e s of
        (effective_speed, s) \<Rightarrow>
          timer_ghost_mode (fst (powerup_loop px effective_speed (powerups s) s)))"

text \<open>
  Concrete inputs. \<open>trunc_px\<close> cuts the fraction off, as pygame 2 does when a float is
  assigned to \<^verbatim>\<open>rect.x\<close>. \<open>idle\<close> is a frame without events and keys, in which
  every cloud is at the height of its lane. \<open>fresh\<close> is a session as \<^verbatim>\<open>reset_game\<close>
  leaves it, before its first wall.
\<close>

definition trunc_px :: "rat \<Rightarrow> int" where
  "trunc_px r = (if r < 0 then \<lceil>r\<rceil> else \<lfloor>r\<rfloor>)"

definition idle :: env where
  "idle = \<lparr>events = [], K_UP = False, K_DOWN = False,
           draws = (\<lambda>i. \<lparr>pick = 0, val_1_9 = 1, val_2_4 = 2\<rparr>),
           roll = 0, pu_y = 50,
           bob = (\<lambda>k c. original_y c)\<rparr>"

definition fresh :: SpaceMathGame where
  "fresh = \<lparr>state = PLAYING, player = new_Player, clouds = [], powerups = [],
            target = 50, timer_spawn_cloud = 0, timer_spawn_powerup = 0,
            current_difficulty_speed = 5,
            timer_slow_motion = 0, timer_ghost_mode = 0, timer_inverted = 0,
            timer_rapid_fire = 0, lander_y = - 100\<rparr>"

definition cloud_at :: "int \<Rightarrow> int \<Rightarrow> Operation \<Rightarrow> int \<Rightarrow> Cloud" where
  "cloud_at x0 y0 opr v =
     \<lparr>cloud_rect = \<lparr>rect_x = x0, rect_y = y0, rect_w = 180, rect_h = 120\<rparr>,
      op = opr, val = v, original_y = y0\<rparr>"

text \<open>
  A wall of three clouds around the ship, whose rectangle overlaps the middle one, with
  one frame of ghost mode left.
\<close>

definition ghost_ending :: SpaceMathGame where
  "ghost_ending =
     fresh\<lparr>clouds := [cloud_at 150 56 SUBTRACT 2, cloud_at 150 289 ADD 3,
                       cloud_at 150 522 MULTIPLY 2],
           timer_ghost_mode := 1\<rparr>"

text \<open>
  Six clouds in the lane of the ship, five pixels apart, so that at the base speed the
  ship meets one of them in each of six frames; and what is seen of a run.
\<close>

definition six_clouds :: "Cloud list" where
  "six_clouds = [cloud_at 200 289 ADD 9, cloud_at 205 289 ADD 9, cloud_at 210 289 ADD 9,
                 cloud_at 215 289 ADD 9, cloud_at 220 289 ADD 9, cloud_at 225 289 ADD 5]"

definition score_and_state :: "stop + SpaceMathGame \<Rightarrow> (int \<times> GameState) option" where
  "score_and_state r = (case r of Inl x \<Rightarrow> None | Inr s \<Rightarrow> Some (score (player s), state s))"

definition after_frames :: "nat \<Rightarrow> (int \<times> GameState) option" where
  "after_frames n =
     score_and_state (frames trunc_px (replicate n idle) (fresh\<lparr>clouds := six_clouds\<rparr>))"

text \<open>
  A ROUND_NUM power-up that reaches the ship, and a session at difficulty speed 15 with
  effects running.
\<close>

definition fix_powerup :: PowerUp where
  "fix_powerup =
     \<lparr>pu_rect = \<lparr>rect_x = 150, rect_y = 350, rect_w = 40, rect_h = 40\<rparr>,
      pu_type = ROUND_NUM, angle = 0, hue = 0\<rparr>"

definition fast_session :: SpaceMathGame where
  "fast_session =
     fresh\<lparr>current_difficulty_speed := 15, timer_slow_motion := 100,
           timer_ghost_mode := 50\<rparr>"

text \<open>A session in the landing scene, after a won game.\<close>

definition landed :: SpaceMathGame where
  "landed =
     fresh\<lparr>state := LANDING_SCENE, player := new_Player\<lparr>score := 50\<rparr>,
           powerups := [\<lparr>pu_rect = \<lparr>rect_x = 640, rect_y = 200, rect_w = 40, rect_h = 40\<rparr>,
                         pu_type = GHOST, angle = 90, hue = 90\<rparr>],
           timer_spawn_cloud := 77, timer_spawn_powerup := 300,
           current_difficulty_speed := 18, timer_ghost_mode := 12, lander_y := 420\<rparr>"

section \<open>Properties\<close>

subsection \<open>Doubles\<close>

lemma rhe_nearest: "\<bar>of_int (round_half_even r) - r\<bar> \<le> 1 / 2"
proof -
  have "of_int \<lfloor>r\<rfloor> \<le> r" "r < of_int \<lfloor>r\<rfloor> + 1" by linarith+
  then show ?thesis
    unfolding round_half_even_def Let_def by (simp add: abs_if) linarith
qed

lemma rhe_of_int [simp]: "round_half_even (of_int k) = k"
  by (simp add: round_half_even_def)

lemma rhe_0 [simp]: "round_half_even 0 = 0"
  using rhe_of_int [of 0] by simp

lemma rhe_nonneg: "0 \<le> r \<Longrightarrow> 0 \<le> round_half_even r"
  by (auto simp: round_half_even_def Let_def)

lemma rhe_half: "round_half_even (of_int n + 1 / 2) = (if even n then n else n + 1)"
proof -
  have "\<lfloor>(of_int n :: rat) + 1 / 2\<rfloor> = n" by linarith
  then show ?thesis by (simp add: round_half_even_def Let_def)
qed

lemma rhe_local:
  assumes "of_int m - 1 / 2 < r" and "r < of_int m + 1 / 2"
  shows "round_half_even r = m"
proof -
  have "\<lfloor>r\<rfloor> = m \<or> \<lfloor>r\<rfloor> = m - 1"
    using assms by linarith
  then show ?thesis
  proof
    assume "\<lfloor>r\<rfloor> = m"
    then show ?thesis
      using assms by (simp add: round_half_even_def Let_def)
  next
    assume "\<lfloor>r\<rfloor> = m - 1"
    then show ?thesis
      using assms by (simp add: round_half_even_def Let_def)
  qed
qed

text \<open>\<open>ilog2\<close> is the binary exponent: \<open>2 ^ ilog2 y \<le> y < 2 ^ (ilog2 y + 1)\<close>.\<close>

lemma bitlen_pos: "0 < m \<Longrightarrow> 1 \<le> bitlen m"
  using bitlen_eq_zero_iff [of m] bitlen_nonneg [of m] by linarith

lemma ilog2_lower: "0 < y \<Longrightarrow> power_int 2 (ilog2 y) \<le> y"
proof (cases "1 \<le> y")
  case True
  then have m: "0 < \<lfloor>y\<rfloor>" by linarith
  from bitlen_bounds [OF m] have "2 ^ nat (bitlen \<lfloor>y\<rfloor> - 1) \<le> \<lfloor>y\<rfloor>" ..
  then have "(of_int (2 ^ nat (bitlen \<lfloor>y\<rfloor> - 1)) :: rat) \<le> of_int \<lfloor>y\<rfloor>"
    by (simp only: of_int_le_iff)
  also have "\<dots> \<le> y" by linarith
  finally have "(2::rat) ^ nat (bitlen \<lfloor>y\<rfloor> - 1) \<le> y" by simp
  then show ?thesis
    using True bitlen_pos [OF m] by (simp add: ilog2_def power_int_def)
next
  case False
  assume y: "0 < y"
  let ?c = "\<lceil>1 / y\<rceil>"
  let ?b = "bitlen (?c - 1)"
  have "1 < 1 / y" using False y by simp
  then have "2 \<le> ?c" by linarith
  then have m: "0 < ?c - 1" by simp
  from bitlen_bounds [OF m] have "?c - 1 < 2 ^ nat ?b" ..
  then have "?c \<le> 2 ^ nat ?b" by simp
  then have "(of_int ?c :: rat) \<le> of_int (2 ^ nat ?b)"
    by (simp only: of_int_le_iff)
  then have "(of_int ?c :: rat) \<le> 2 ^ nat ?b" by simp
  moreover have "1 / y \<le> of_int ?c" by linarith
  ultimately have "1 / y \<le> 2 ^ nat ?b" by (rule order_trans [rotated])
  then have "1 / 2 ^ nat ?b \<le> y"
    using y by (simp add: field_simps)
  then show ?thesis
    using False bitlen_pos [OF m]
    by (simp add: ilog2_def power_int_def power_inverse inverse_eq_divide power_one_over)
qed

lemma ilog2_upper: "0 < y \<Longrightarrow> y < power_int 2 (ilog2 y + 1)"
proof (cases "1 \<le> y")
  case True
  then have m: "0 < \<lfloor>y\<rfloor>" by linarith
  from bitlen_bounds [OF m] have "\<lfloor>y\<rfloor> < 2 ^ nat (bitlen \<lfloor>y\<rfloor>)" ..
  then have "\<lfloor>y\<rfloor> + 1 \<le> 2 ^ nat (bitlen \<lfloor>y\<rfloor>)" by simp
  then have "(of_int (\<lfloor>y\<rfloor> + 1) :: rat) \<le> of_int (2 ^ nat (bitlen \<lfloor>y\<rfloor>))"
    by (simp only: of_int_le_iff)
  moreover have "y < of_int (\<lfloor>y\<rfloor> + 1)" by linarith
  ultimately have "y < 2 ^ nat (bitlen \<lfloor>y\<rfloor>)" by simp
  then show ?thesis
    using True bitlen_nonneg [of "\<lfloor>y\<rfloor>"] by (simp add: ilog2_def power_int_def)
next
  case False
  assume y: "0 < y"
  let ?c = "\<lceil>1 / y\<rceil>"
  let ?b = "bitlen (?c - 1)"
  have "1 < 1 / y" using False y by simp
  then have "2 \<le> ?c" by linarith
  then have m: "0 < ?c - 1" by simp
  note b1 = bitlen_pos [OF m]
  from bitlen_bounds [OF m] have "2 ^ nat (?b - 1) \<le> ?c - 1" ..
  then have "(of_int (2 ^ nat (?b - 1)) :: rat) \<le> of_int (?c - 1)"
    by (simp only: of_int_le_iff)
  moreover have "of_int (?c - 1) < 1 / y" by linarith
  ultimately have "2 ^ nat (?b - 1) < 1 / y" by simp
  then have lt: "y < 1 / 2 ^ nat (?b - 1)"
    using y by (simp add: field_simps)
  show ?thesis
  proof (cases "?b = 1")
    case True
    then show ?thesis using lt False by (simp add: ilog2_def)
  next
    case b: False
    then have "- ?b + 1 < 0" using b1 by simp
    moreover have "nat (- (- ?b + 1)) = nat (?b - 1)" by simp
    ultimately show ?thesis
      using lt False
      by (simp add: ilog2_def power_int_def power_inverse inverse_eq_divide power_one_over)
  qed
qed

lemma ilog2_less:
  assumes "0 < y" and "y < power_int 2 n"
  shows "ilog2 y < n"
proof (rule ccontr)
  assume "\<not> ilog2 y < n"
  then have "n \<le> ilog2 y" by simp
  then have "power_int (2::rat) n \<le> power_int 2 (ilog2 y)"
    by (simp add: power_int_increasing)
  with ilog2_lower [OF assms(1)] assms(2) show False by linarith
qed

lemma ulp_pos [simp]: "0 < ulp x"
  by (simp add: ulp_def)

lemma ulp_nonneg [simp]: "0 \<le> ulp x"
  by (rule less_imp_le [OF ulp_pos])

lemma ulp_neq_0 [simp]: "ulp x \<noteq> 0"
  using ulp_pos [of x] by (rule less_imp_neq [symmetric])

text \<open>A double is at most half a unit in the last place away from the value it rounds.\<close>

lemma double_error: "\<bar>double x - x\<bar> \<le> ulp x / 2"
proof (cases "x = 0")
  case True
  then show ?thesis by (simp add: double_def)
next
  case False
  have "\<bar>of_int (round_half_even (x / ulp x)) - x / ulp x\<bar> * ulp x \<le> 1 / 2 * ulp x"
    by (rule mult_right_mono [OF rhe_nearest]) simp
  moreover have "\<bar>of_int (round_half_even (x / ulp x)) - x / ulp x\<bar> * ulp x
      = \<bar>of_int (round_half_even (x / ulp x)) * ulp x - x\<bar>"
  proof -
    have "\<bar>of_int (round_half_even (x / ulp x)) - x / ulp x\<bar> * ulp x
        = \<bar>(of_int (round_half_even (x / ulp x)) - x / ulp x) * ulp x\<bar>"
      by (simp add: abs_mult)
    also have "(of_int (round_half_even (x / ulp x)) - x / ulp x) * ulp x
        = of_int (round_half_even (x / ulp x)) * ulp x - x"
      using ulp_pos [of x] by (simp add: left_diff_distrib)
    finally show ?thesis .
  qed
  ultimately show ?thesis
    using False by (simp add: double_def)
qed

lemma ulp_le:
  assumes "x \<noteq> 0" and "\<bar>x\<bar> < power_int 2 n" and "- 1021 \<le> n"
  shows "ulp x \<le> power_int 2 (n - 53)"
proof -
  have "ilog2 \<bar>x\<bar> < n"
    using assms by (intro ilog2_less) simp_all
  then have "max (ilog2 \<bar>x\<bar>) (- 1022) - 52 \<le> n - 53"
    using assms(3) by simp
  then show ?thesis
    unfolding ulp_def by (simp add: power_int_increasing)
qed

text \<open>Multiples of the unit in the last place are doubles.\<close>

lemma double_exact: "x = of_int k * ulp x \<Longrightarrow> double x = x"
proof -
  assume a: "x = of_int k * ulp x"
  have "x / ulp x = of_int k"
    using ulp_pos [of x] by (subst a) simp
  then show ?thesis
    using a by (simp add: double_def)
qed

lemma double_dyadic:
  assumes "x \<noteq> 0" and "\<bar>x\<bar> < power_int 2 (j + 53)" and "- 1074 \<le> j"
      and "x = of_int k * power_int 2 j"
  shows "double x = x"
proof -
  let ?e = "max (ilog2 \<bar>x\<bar>) (- 1022)"
  have "ilog2 \<bar>x\<bar> < j + 53"
    using assms(1,2) by (intro ilog2_less) simp_all
  then have d: "0 \<le> j - (?e - 52)"
    using assms(3) by simp
  have "power_int (2::rat) j = power_int 2 (j - (?e - 52)) * power_int 2 (?e - 52)"
    by (simp flip: power_int_add)
  also have "power_int (2::rat) (j - (?e - 52)) = of_int (2 ^ nat (j - (?e - 52)))"
    using d by (simp add: power_int_def)
  finally have "x = of_int (k * 2 ^ nat (j - (?e - 52))) * ulp x"
    using assms(4) by (simp add: ulp_def mult.assoc)
  then show ?thesis by (rule double_exact)
qed

lemma double_of_int: "\<bar>n\<bar> \<le> 2 ^ 53 \<Longrightarrow> double (of_int n) = of_int n"
proof -
  assume n: "\<bar>n\<bar> \<le> 2 ^ 53"
  show ?thesis
  proof (cases "\<bar>n\<bar> = 2 ^ 53")
    case True
    then have "n = 2 ^ 53 \<or> n = - (2 ^ 53)" by linarith
    then have x: "(of_int n :: rat) = of_int (n div 2) * power_int 2 1" by auto
    show ?thesis
    proof (rule double_dyadic [OF _ _ _ x])
      show "(of_int n :: rat) \<noteq> 0" using True by auto
      have "\<bar>of_int n :: rat\<bar> = 2 ^ 53"
        using True by (metis of_int_abs of_int_numeral of_int_power)
      then show "\<bar>of_int n :: rat\<bar> < power_int 2 (1 + 53)" by simp
    qed simp
  next
    case False
    show ?thesis
    proof (cases "n = 0")
      case True
      then show ?thesis by (simp add: double_def)
    next
      case nz: False
      have lt: "\<bar>n\<bar> < 2 ^ 53" using n False by simp
      have x: "(of_int n :: rat) = of_int n * power_int 2 0" by simp
      show ?thesis
      proof (rule double_dyadic [OF _ _ _ x])
        show "(of_int n :: rat) \<noteq> 0" using nz by simp
        have "(of_int \<bar>n\<bar> :: rat) < of_int (2 ^ 53)"
          using lt by (simp only: of_int_less_iff)
        then show "\<bar>of_int n :: rat\<bar> < power_int 2 (0 + 53)" by simp
      qed simp
    qed
  qed
qed

lemma double_half:
  assumes "\<bar>x\<bar> < 2 ^ 52" and "x = of_int k / 2"
  shows "double x = x"
proof (cases "x = 0")
  case True
  then show ?thesis by (simp add: double_def)
next
  case False
  have x: "x = of_int k * power_int 2 (- 1)"
    using assms(2) by (simp add: power_int_minus inverse_eq_divide)
  show ?thesis
  proof (rule double_dyadic [OF False _ _ x])
    show "\<bar>x\<bar> < power_int 2 (- 1 + 53)" using assms(1) by simp
  qed simp
qed

lemma finite_double_small: "\<bar>d\<bar> \<le> 2 ^ 53 \<Longrightarrow> finite_double d"
proof -
  assume "\<bar>d\<bar> \<le> 2 ^ 53"
  moreover have "(2::rat) ^ 53 < 2 ^ 1024"
    by (rule power_strict_increasing) simp_all
  ultimately show ?thesis
    unfolding finite_double_def by (rule le_less_trans)
qed

lemma float_of_int_exact: "\<bar>n\<bar> \<le> 2 ^ 53 \<Longrightarrow> float_of_int n = Inr (of_int n)"
proof -
  assume n: "\<bar>n\<bar> \<le> 2 ^ 53"
  then have "(of_int \<bar>n\<bar> :: rat) \<le> of_int (2 ^ 53)"
    by (simp only: of_int_le_iff)
  then have "\<bar>of_int n :: rat\<bar> \<le> 2 ^ 53" by simp
  then show ?thesis
    by (simp add: float_of_int_def double_of_int [OF n] finite_double_small)
qed

subsection \<open>The arithmetic engine\<close>

lemma py_round_nearest: "\<bar>of_int (py_round r) - r\<bar> \<le> 1 / 2"
  unfolding py_round_def by (rule rhe_nearest)

lemma py_round_nonneg: "0 \<le> r \<Longrightarrow> 0 \<le> py_round r"
  by (simp add: py_round_def rhe_nonneg)

lemma py_round_half: "py_round (of_int n + 1 / 2) = (if even n then n else n + 1)"
  by (simp only: py_round_def rhe_half)

lemma floor_rat_numeral_div [simp]:
  "\<lfloor>numeral a / numeral b :: rat\<rfloor> = numeral a div numeral b"
  by (metis floor_divide_of_int_eq of_int_numeral)

text \<open>
  The end of \<open>calculate\<close> on a result that is an integer below \<open>2^53\<close>: no rounding,
  no penalty.
\<close>

lemma calculate_unfold:
  assumes "\<bar>score p\<bar> \<le> 2 ^ 53" and "\<bar>v\<bar> \<le> 2 ^ 53" and "\<not> (opr = DIVIDE \<and> v = 0)"
  shows "calculate opr v p =
     (let res = double (case opr of
                          ADD \<Rightarrow> of_int (score p) + of_int v
                        | SUBTRACT \<Rightarrow> of_int (score p) - of_int v
                        | MULTIPLY \<Rightarrow> of_int (score p) * of_int v
                        | DIVIDE \<Rightarrow> of_int (score p) / of_int v);
          res = (if res < 0 then 0 else res)
      in if finite_double res
         then Inr (res - of_int \<lfloor>res\<rfloor> \<noteq> 0, p\<lparr>score := py_round res\<rparr>)
         else Inl OverflowError)"
proof -
  from assms(3) have z: "(opr = DIVIDE \<and> v = 0) \<longleftrightarrow> False" by blast
  show ?thesis
    unfolding calculate_def float_of_int_exact [OF assms(1)] float_of_int_exact [OF assms(2)] z
    by (simp add: Let_def)
qed

lemma integer_result:
  assumes "\<bar>k\<bar> \<le> 2 ^ 53"
  shows "(let res = double (of_int k); res = (if res < 0 then 0 else res)
          in if finite_double res
             then Inr (res - of_int \<lfloor>res\<rfloor> \<noteq> 0, p\<lparr>score := py_round res\<rparr>)
             else Inl OverflowError)
         = Inr (\<not> is_integer (max 0 (of_int k)), p\<lparr>score := py_round (max 0 (of_int k))\<rparr>)"
proof -
  have "(of_int \<bar>k\<bar> :: rat) \<le> of_int (2 ^ 53)"
    using assms by (simp only: of_int_le_iff)
  then have a: "\<bar>of_int k :: rat\<bar> \<le> 2 ^ 53" by simp
  have f: "finite_double (of_int k)" "finite_double 0"
    using a by (simp_all add: finite_double_small)
  have m: "max 0 (of_int k :: rat) = of_int (max 0 k)"
    by (simp add: max_def)
  show ?thesis
    unfolding m
    by (simp add: double_of_int [OF assms] f is_integer_def py_round_def Let_def max_def)
qed

text \<open>A quotient by an operand up to 9 is no nearer than 1/9 to 0 unless it is 0.\<close>

lemma small_quotient:
  assumes "m \<noteq> 0" and "v \<noteq> 0" and "\<bar>v\<bar> \<le> 9"
  shows "1 / 9 \<le> \<bar>(of_int m :: rat) / of_int v\<bar>"
proof -
  have "1 \<le> \<bar>m\<bar>" using assms(1) by simp
  then have "(of_int 1 :: rat) \<le> of_int \<bar>m\<bar>" by (simp only: of_int_le_iff)
  then have m: "(1::rat) \<le> \<bar>of_int m\<bar>" by simp
  have "(of_int \<bar>v\<bar> :: rat) \<le> of_int 9"
    using assms(3) by (simp only: of_int_le_iff)
  then have v: "\<bar>of_int v :: rat\<bar> \<le> 9" by simp
  have p: "(0::rat) < \<bar>of_int v\<bar>" using assms(2) by simp
  have "1 / 9 \<le> 1 / \<bar>of_int v :: rat\<bar>"
    using v p by (simp add: field_simps)
  also have "\<dots> \<le> \<bar>of_int m :: rat\<bar> / \<bar>of_int v\<bar>"
    using m p by (simp add: divide_right_mono)
  finally show ?thesis by (simp add: abs_divide)
qed

text \<open>
  The double of a quotient \<open>S / v\<close> with \<open>\<bar>S\<bar> < 2^49\<close> and \<open>0 < \<bar>v\<bar> \<le> 9\<close>: its error is
  at most 1/32, which keeps its sign, whether it is an integer, and the integer it
  rounds to.
\<close>

lemma double_quotient:
  fixes S v :: int
  defines "q \<equiv> (of_int S :: rat) / of_int v"
  assumes S: "\<bar>S\<bar> < 2 ^ 49" and v: "v \<noteq> 0" "\<bar>v\<bar> \<le> 9"
  shows "q < 0 \<Longrightarrow> double q < 0"
    and "0 \<le> q \<Longrightarrow> 0 \<le> double q"
    and "\<bar>double q\<bar> \<le> 2 ^ 53"
    and "is_integer (double q) \<longleftrightarrow> is_integer q"
    and "round_half_even (double q) = round_half_even q"
proof -
  have q9: "1 / 9 \<le> \<bar>q\<bar>" if "q \<noteq> 0"
  proof -
    from that have "S \<noteq> 0" by (auto simp: q_def)
    from small_quotient [OF this v] show ?thesis by (simp add: q_def)
  qed
  have "(of_int \<bar>S\<bar> :: rat) < of_int (2 ^ 49)"
    using S by (simp only: of_int_less_iff)
  then have S': "\<bar>of_int S :: rat\<bar> < 2 ^ 49" by simp
  have "1 \<le> \<bar>v\<bar>" using v(1) by simp
  then have "(of_int 1 :: rat) \<le> of_int \<bar>v\<bar>" by (simp only: of_int_le_iff)
  then have v1: "(1::rat) \<le> \<bar>of_int v\<bar>" by simp
  have "\<bar>q\<bar> = \<bar>of_int S :: rat\<bar> / \<bar>of_int v\<bar>"
    by (simp add: q_def abs_divide)
  also have "\<dots> \<le> \<bar>of_int S :: rat\<bar> / 1"
    using v1 by (intro divide_left_mono) simp_all
  finally have qS: "\<bar>q\<bar> \<le> \<bar>of_int S :: rat\<bar>" by simp
  with S' have q49: "\<bar>q\<bar> < 2 ^ 49" by simp
  have err: "\<bar>double q - q\<bar> \<le> 1 / 32"
  proof (cases "q = 0")
    case True
    then show ?thesis by (simp add: double_def)
  next
    case False
    have "\<bar>q\<bar> < power_int 2 49" using q49 by simp
    from ulp_le [OF False this] have "ulp q \<le> power_int 2 (- 4)" by simp
    then have "ulp q \<le> 1 / 16"
      by (simp add: power_int_minus inverse_eq_divide)
    with double_error [of q] show ?thesis by simp
  qed
  show "double q < 0" if "q < 0"
    using that q9 [of ] err by (simp add: abs_if split: if_splits)
  show "0 \<le> double q" if "0 \<le> q"
  proof (cases "q = 0")
    case True
    then show ?thesis by (simp add: double_def)
  next
    case False
    with that q9 err show ?thesis by (simp add: abs_if split: if_splits)
  qed
  show "\<bar>double q\<bar> \<le> 2 ^ 53"
  proof -
    have "\<bar>double q\<bar> \<le> \<bar>q\<bar> + 1 / 32" using err by linarith
    also have "\<dots> \<le> 2 ^ 49 + 1 / 32" using q49 by simp
    also have "\<dots> \<le> 2 ^ 53" by simp
    finally show ?thesis .
  qed
  text \<open>Distances of a quotient from the integers and from the halves.\<close>
  have dint: "1 / 9 \<le> \<bar>q - of_int j\<bar>" if "q \<noteq> of_int j" for j
  proof -
    have e: "q - of_int j = of_int (S - j * v) / of_int v"
      using v(1) by (simp add: q_def field_simps)
    have "S - j * v \<noteq> 0"
    proof
      assume "S - j * v = 0"
      then have "(of_int S :: rat) = of_int (j * v)" by simp
      then have "q = of_int j"
        using v(1) by (simp add: q_def)
      with that show False by simp
    qed
    from small_quotient [OF this v] show ?thesis by (simp only: e)
  qed
  have dhalf: "1 / 18 \<le> \<bar>q - of_int j / 2\<bar>" if "q \<noteq> of_int j / 2" for j
  proof -
    have e: "q - of_int j / 2 = of_int (2 * S - j * v) / of_int v / 2"
      using v(1) by (simp add: q_def field_simps)
    have nz: "2 * S - j * v \<noteq> 0"
    proof
      assume "2 * S - j * v = 0"
      then have "(of_int (2 * S) :: rat) = of_int (j * v)" by simp
      then have "2 * (of_int S :: rat) = of_int j * of_int v" by simp
      then have "q = of_int j / 2"
        using v(1) by (simp add: q_def field_simps)
      with that show False by simp
    qed
    have h: "1 / 18 \<le> a / 2" if "1 / 9 \<le> a" for a :: rat
      using that by simp
    from h [OF small_quotient [OF nz v]]
    have "1 / 18 \<le> \<bar>(of_int (2 * S - j * v) :: rat) / of_int v\<bar> / 2" .
    also have "\<dots> = \<bar>(of_int (2 * S - j * v) :: rat) / of_int v / 2\<bar>"
      by (simp only: abs_divide [of _ 2] abs_numeral)
    finally show ?thesis by (simp only: e)
  qed
  show "is_integer (double q) \<longleftrightarrow> is_integer q"
  proof (cases "is_integer q")
    case True
    then have qk: "q = of_int \<lfloor>q\<rfloor>" unfolding is_integer_def by (rule sym)
    have "\<bar>of_int \<lfloor>q\<rfloor> :: rat\<bar> < 2 ^ 49" using q49 qk by simp
    then have "(of_int \<bar>\<lfloor>q\<rfloor>\<bar> :: rat) < of_int (2 ^ 49)" by simp
    then have "\<bar>\<lfloor>q\<rfloor>\<bar> < 2 ^ 49" by (simp only: of_int_less_iff)
    then have "\<bar>\<lfloor>q\<rfloor>\<bar> \<le> 2 ^ 53" by simp
    from double_of_int [OF this] have "double q = q" using qk by simp
    with True show ?thesis by simp
  next
    case False
    have "\<not> is_integer (double q)"
    proof
      assume "is_integer (double q)"
      then have d: "double q = of_int \<lfloor>double q\<rfloor>"
        unfolding is_integer_def by (rule sym)
      have "q \<noteq> of_int \<lfloor>double q\<rfloor>"
        using False by (auto simp: is_integer_def)
      from dint [OF this] d have "1 / 9 \<le> \<bar>q - double q\<bar>" by simp
      with err show False by linarith
    qed
    with False show ?thesis by simp
  qed
  show "round_half_even (double q) = round_half_even q"
  proof (cases "\<exists>j. q = of_int j / 2")
    case True
    then obtain j where j: "q = of_int j / 2" ..
    have "\<bar>q\<bar> < 2 ^ 52" using q49 by simp
    from double_half [OF this j] show ?thesis by simp
  next
    case False
    let ?m = "round_half_even q"
    have n: "\<bar>of_int ?m - q\<bar> \<le> 1 / 2" by (rule rhe_nearest)
    have "q \<noteq> of_int (2 * ?m - 1) / 2" "q \<noteq> of_int (2 * ?m + 1) / 2"
      using False by blast+
    from dhalf [OF this(1)] dhalf [OF this(2)]
    have "1 / 18 \<le> \<bar>q - (of_int ?m - 1 / 2)\<bar>" "1 / 18 \<le> \<bar>q - (of_int ?m + 1 / 2)\<bar>"
      by (simp_all add: field_simps)
    with n err have "of_int ?m - 1 / 2 < double q" "double q < of_int ?m + 1 / 2"
      by (simp_all add: abs_if split: if_splits)
    then show ?thesis by (rule rhe_local)
  qed
qed

text \<open>
  In the range of the game, scores below \<open>2^49\<close> and operands up to 9, the doubles of
  \<open>calculate\<close> give the flag and the score of the exact arithmetic.
\<close>

lemma calculate_in_range:
  assumes S: "\<bar>score p\<bar> < 2 ^ 49" and v: "\<bar>v\<bar> \<le> 9" and z: "\<not> (opr = DIVIDE \<and> v = 0)"
  shows "calculate opr v p =
     Inr (\<not> is_integer (clamped_result (score p) opr v),
          p\<lparr>score := py_round (clamped_result (score p) opr v)\<rparr>)"
proof -
  have b: "\<bar>score p\<bar> \<le> 2 ^ 53" "\<bar>v\<bar> \<le> 2 ^ 53" using S v by simp_all
  note u = calculate_unfold [OF b z]
  have sum: "\<bar>score p + v\<bar> \<le> 2 ^ 53" "\<bar>score p - v\<bar> \<le> 2 ^ 53"
    using S v by simp_all
  have "\<bar>score p * v\<bar> = \<bar>score p\<bar> * \<bar>v\<bar>" by (rule abs_mult)
  also have "\<dots> \<le> 2 ^ 49 * 9"
    using S v by (intro mult_mono) simp_all
  finally have prod: "\<bar>score p * v\<bar> \<le> 2 ^ 53" by simp
  show ?thesis
  proof (cases opr)
    case ADD
    from integer_result [OF sum(1), of p] show ?thesis
      by (simp only: u) (simp add: ADD clamped_result_def raw_result_def)
  next
    case SUBTRACT
    from integer_result [OF sum(2), of p] show ?thesis
      by (simp only: u) (simp add: SUBTRACT clamped_result_def raw_result_def)
  next
    case MULTIPLY
    from integer_result [OF prod, of p] show ?thesis
      by (simp only: u) (simp add: MULTIPLY clamped_result_def raw_result_def)
  next
    case DIVIDE
    with z have v0: "v \<noteq> 0" by simp
    let ?q = "(of_int (score p) :: rat) / of_int v"
    note dq = double_quotient [OF S v0 v]
    have raw: "raw_result (score p) DIVIDE v = ?q"
      by (simp add: raw_result_def Fract_of_int_quotient)
    show ?thesis
    proof (cases "?q < 0")
      case True
      from dq(1) [OF True] True show ?thesis
        by (simp only: u)
          (simp add: DIVIDE clamped_result_def raw max_def is_integer_def py_round_def
            finite_double_def Let_def)
    next
      case False
      then have q0: "0 \<le> ?q" by simp
      have f: "finite_double (double ?q)"
        by (rule finite_double_small [OF dq(3)])
      have "\<not> double ?q < 0" using dq(2) [OF q0] by simp
      moreover have "(double ?q - of_int \<lfloor>double ?q\<rfloor> \<noteq> 0) = (\<not> is_integer ?q)"
        using dq(4) by (auto simp: is_integer_def)
      ultimately show ?thesis
        using q0 f dq(5)
        by (simp only: u) (simp add: DIVIDE clamped_result_def raw max_def py_round_def Let_def)
    qed
  qed
qed

text \<open>
  For evaluation: in that range \<open>calculate\<close> is computed by the exact arithmetic.
\<close>

lemma calculate_code [code]:
  "calculate opr v p =
     (if \<bar>score p\<bar> < 562949953421312 \<and> \<bar>v\<bar> \<le> 9 \<and> \<not> (opr = DIVIDE \<and> v = 0)
      then Inr (\<not> is_integer (clamped_result (score p) opr v),
                p\<lparr>score := py_round (clamped_result (score p) opr v)\<rparr>)
      else
        (case float_of_int (score p) of
           Inl x \<Rightarrow> Inl x
         | Inr res \<Rightarrow>
             if opr = DIVIDE \<and> v = 0 then Inr (False, p)
             else
               (case float_of_int v of
                  Inl x \<Rightarrow> Inl x
                | Inr fv \<Rightarrow>
                    let res = double (case opr of
                                        ADD \<Rightarrow> res + fv
                                      | SUBTRACT \<Rightarrow> res - fv
                                      | MULTIPLY \<Rightarrow> res * fv
                                      | DIVIDE \<Rightarrow> res / fv);
                        res = (if res < 0 then 0 else res);
                        is_decimal_penalty = (res - of_int \<lfloor>res\<rfloor> \<noteq> 0)
                    in if finite_double res
                       then Inr (is_decimal_penalty, p\<lparr>score := py_round res\<rparr>)
                       else Inl OverflowError)))"
proof (cases "\<bar>score p\<bar> < 562949953421312 \<and> \<bar>v\<bar> \<le> 9 \<and> \<not> (opr = DIVIDE \<and> v = 0)")
  case True
  then have "\<bar>score p\<bar> < 2 ^ 49" "\<bar>v\<bar> \<le> 9" "\<not> (opr = DIVIDE \<and> v = 0)"
    by simp_all
  from calculate_in_range [OF this] True show ?thesis
    by simp
next
  case False
  then show ?thesis
    by (simp only: if_False calculate_def)
qed

lemma rhe_numeral [simp]: "round_half_even (numeral k) = numeral k"
  using rhe_of_int [of "numeral k"] by simp

lemma int_not_half: "(of_int m :: rat) \<noteq> of_int n + 1 / 2"
proof
  assume "(of_int m :: rat) = of_int n + 1 / 2"
  then have "(of_int (2 * m) :: rat) = of_int (2 * n + 1)" by simp
  then have "2 * m = 2 * n + 1" by (simp only: of_int_eq_iff)
  then show False by presburger
qed

text \<open>
  An integer that is a double has at most 53 significant bits: it is an integer of at
  most 53 bits times a power of two.
\<close>

lemma exact_float_double:
  "exact_float S \<Longrightarrow> double (of_int S) = of_int S \<and> finite_double (of_int S)"
  by (auto simp: exact_float_def float_of_int_def Let_def split: if_splits)

lemma exact_float_dyadic:
  assumes "exact_float S"
  shows "\<exists>k j. S = k * 2 ^ j \<and> \<bar>k\<bar> \<le> 2 ^ 53"
proof (cases "\<bar>S\<bar> \<le> 2 ^ 53")
  case True
  then have "S = S * 2 ^ 0 \<and> \<bar>S\<bar> \<le> 2 ^ 53" by simp
  then show ?thesis by blast
next
  case False
  let ?x = "of_int S :: rat"
  let ?e = "ilog2 \<bar>?x\<bar>"
  let ?K = "round_half_even (?x / ulp ?x)"
  have d: "double ?x = ?x" using exact_float_double [OF assms] ..
  have "(of_int (2 ^ 53) :: rat) < of_int \<bar>S\<bar>"
    using False by (simp only: of_int_less_iff)
  then have big: "2 ^ 53 < \<bar>?x\<bar>" by simp
  then have x0: "?x \<noteq> 0" "0 < \<bar>?x\<bar>" by auto
  have up: "\<bar>?x\<bar> < power_int 2 (?e + 1)" by (rule ilog2_upper [OF x0(2)])
  have "53 < ?e + 1"
  proof (rule ccontr)
    assume "\<not> 53 < ?e + 1"
    then have "power_int (2::rat) (?e + 1) \<le> power_int 2 53"
      by (intro power_int_increasing) simp_all
    with big up show False by simp
  qed
  then have e: "52 \<le> ?e - 1" "max ?e (- 1022) = ?e" by simp_all
  then have u: "ulp ?x = 2 ^ nat (?e - 52)"
    by (simp add: ulp_def power_int_def)
  from d x0 have "?x = of_int ?K * ulp ?x"
    by (simp add: double_def)
  then have "?x = of_int (?K * 2 ^ nat (?e - 52))"
    by (simp add: u)
  then have S: "S = ?K * 2 ^ nat (?e - 52)"
    by (simp only: of_int_eq_iff)
  have "?e + 1 = 53 + (?e - 52)" by simp
  then have "power_int (2::rat) (?e + 1) = power_int 2 (53 + (?e - 52))"
    by (rule arg_cong)
  also have "\<dots> = power_int 2 53 * power_int 2 (?e - 52)"
    by (rule power_int_add) simp
  also have "power_int (2::rat) (?e - 52) = ulp ?x"
    using e(2) by (simp add: ulp_def)
  finally have "power_int (2::rat) (?e + 1) = 2 ^ 53 * ulp ?x" by simp
  with up have "\<bar>?x\<bar> < 2 ^ 53 * ulp ?x" by simp
  then have "\<bar>?x / ulp ?x\<bar> < 2 ^ 53"
    by (simp add: abs_divide pos_divide_less_eq)
  moreover have "\<bar>of_int ?K - ?x / ulp ?x\<bar> \<le> 1 / 2" by (rule rhe_nearest)
  ultimately have "\<bar>of_int ?K :: rat\<bar> < 2 ^ 53 + 1" by linarith
  then have "(of_int \<bar>?K\<bar> :: rat) < of_int (2 ^ 53 + 1)" by simp
  then have "\<bar>?K\<bar> < 2 ^ 53 + 1" by (simp only: of_int_less_iff)
  then have "\<bar>?K\<bar> \<le> 2 ^ 53" by simp
  with S show ?thesis by blast
qed

text \<open>
  A quotient of two such integers that is exactly halfway between two integers is a
  double, and \<open>calculate\<close> rounds it to the even neighbour.
\<close>

lemma calculate_half:
  assumes S: "exact_float (score p)" and V: "exact_float V"
      and z: "\<not> (opr = DIVIDE \<and> V = 0)"
      and h: "clamped_result (score p) opr V = of_int n + 1 / 2"
  shows "calculate opr V p = Inr (True, p\<lparr>score := (if even n then n else n + 1)\<rparr>)"
proof -
  have m: "max 0 (of_int k :: rat) = of_int (max 0 k)" for k
    by (simp add: max_def)
  show ?thesis
  proof (cases opr)
    case ADD
    with h int_not_half [of "max 0 (score p + V)" n] show ?thesis
      by (simp only: clamped_result_def raw_result_def m Operation.case)
  next
    case SUBTRACT
    with h int_not_half [of "max 0 (score p - V)" n] show ?thesis
      by (simp only: clamped_result_def raw_result_def m Operation.case)
  next
    case MULTIPLY
    with h int_not_half [of "max 0 (score p * V)" n] show ?thesis
      by (simp only: clamped_result_def raw_result_def m Operation.case)
  next
    case DIVIDE
    with z have V0: "V \<noteq> 0" by simp
    let ?q = "(of_int (score p) :: rat) / of_int V"
    have "max 0 ?q = of_int n + 1 / 2"
      using h by (simp add: DIVIDE clamped_result_def raw_result_def Fract_of_int_quotient)
    moreover have "(0::rat) \<noteq> of_int n + 1 / 2"
      using int_not_half [of 0 n] by simp
    ultimately have q: "?q = of_int n + 1 / 2" and qpos: "0 < ?q"
      by (simp_all add: max_def split: if_splits)
    then have n0: "0 \<le> n" by linarith
    have S0: "score p \<noteq> 0" using qpos by auto
    have "(of_int (score p) :: rat) = (of_int n + 1 / 2) * of_int V"
      using q V0 by (simp add: field_simps)
    then have "(of_int (2 * score p) :: rat) = of_int ((2 * n + 1) * V)"
      by (simp add: field_simps)
    then have eq: "2 * score p = (2 * n + 1) * V"
      by (simp only: of_int_eq_iff)
    from exact_float_dyadic [OF S] obtain k j where kj: "score p = k * 2 ^ j" "\<bar>k\<bar> \<le> 2 ^ 53"
      by blast
    have k0: "k \<noteq> 0" using S0 kj(1) by auto
    have "(2 * n + 1) dvd 2 * score p"
      unfolding eq by simp
    then have "(2 * n + 1) dvd k * 2 ^ Suc j"
      by (simp add: kj(1) mult.commute mult.left_commute)
    moreover have "coprime (2 * n + 1) (2 ^ Suc j)"
      by simp
    ultimately have "(2 * n + 1) dvd k"
      by (simp only: coprime_dvd_mult_left_iff)
    from dvd_imp_le_int [OF k0 this] kj(2) n0 have "2 * n + 1 \<le> 2 ^ 53"
      by simp
    moreover have "2 * n + 1 \<noteq> 2 ^ 53"
    proof
      assume "2 * n + 1 = 2 ^ 53"
      then have "even (2 * n + 1)" by simp
      then show False by simp
    qed
    ultimately have "2 * n + 1 < 2 ^ 53" by simp
    then have "(of_int (2 * n + 1) :: rat) < of_int (2 ^ 53)"
      by (simp only: of_int_less_iff)
    then have q52: "\<bar>?q\<bar> < 2 ^ 52"
      using qpos by (simp add: q)
    have "?q = of_int (2 * n + 1) / 2"
      by (simp add: q)
    from double_half [OF q52 this] have dq: "double ?q = ?q" .
    have fl: "\<lfloor>(of_int n :: rat) + 1 / 2\<rfloor> = n" by linarith
    have fin: "finite_double ?q"
      by (rule finite_double_small) (use q52 in simp)
    from exact_float_double [OF S] exact_float_double [OF V]
    have c: "float_of_int (score p) = Inr (of_int (score p))" "float_of_int V = Inr (of_int V)"
      using S V by (simp_all add: exact_float_def)
    show ?thesis
      unfolding calculate_def c
      using V0 qpos fin
      by (simp add: DIVIDE dq Let_def) (simp add: q fl py_round_half)
  qed
qed

lemma exact_float_small: "\<bar>n\<bar> \<le> 2 ^ 53 \<Longrightarrow> exact_float n"
  by (simp add: exact_float_def float_of_int_exact)

text \<open>
  The scores of the game are doubles: the score 0 is, and every score that \<open>calculate\<close>
  stores is the rounding of a finite double, which is an integer-valued double.
\<close>

lemma significand_bound:
  assumes "x \<noteq> 0"
  shows "\<bar>round_half_even (x / ulp x)\<bar> \<le> 2 ^ 53"
proof -
  let ?e = "max (ilog2 \<bar>x\<bar>) (- 1022)"
  let ?K = "round_half_even (x / ulp x)"
  have x0: "0 < \<bar>x\<bar>" using assms by simp
  have "\<bar>x\<bar> < power_int 2 (ilog2 \<bar>x\<bar> + 1)" by (rule ilog2_upper [OF x0])
  also have "\<dots> \<le> power_int 2 (?e + 1)"
    by (intro power_int_increasing) simp_all
  also have "power_int (2::rat) (?e + 1) = 2 ^ 53 * ulp x"
  proof -
    have "?e + 1 = 53 + (?e - 52)" by simp
    then have "power_int (2::rat) (?e + 1) = power_int 2 (53 + (?e - 52))"
      by (rule arg_cong)
    also have "\<dots> = power_int 2 53 * power_int 2 (?e - 52)"
      by (rule power_int_add) simp
    finally show ?thesis by (simp add: ulp_def)
  qed
  finally have "\<bar>x\<bar> < 2 ^ 53 * ulp x" .
  then have "\<bar>x / ulp x\<bar> < 2 ^ 53"
    by (simp add: abs_divide pos_divide_less_eq)
  moreover have "\<bar>of_int ?K - x / ulp x\<bar> \<le> 1 / 2" by (rule rhe_nearest)
  ultimately have "\<bar>of_int ?K :: rat\<bar> < 2 ^ 53 + 1" by linarith
  then have "(of_int \<bar>?K\<bar> :: rat) < of_int (2 ^ 53 + 1)" by simp
  then have "\<bar>?K\<bar> < 2 ^ 53 + 1" by (simp only: of_int_less_iff)
  then show ?thesis by simp
qed

lemma double_idem: "double (double x) = double x"
proof (cases "double x = 0")
  case True
  then show ?thesis by (simp add: double_def)
next
  case False
  then have nz: "double x \<noteq> 0" by simp
  then have x: "x \<noteq> 0" by (auto simp: double_def)
  let ?j = "max (ilog2 \<bar>x\<bar>) (- 1022) - 52"
  let ?K = "round_half_even (x / ulp x)"
  have u: "ulp x = power_int 2 ?j" by (simp add: ulp_def)
  have d: "double x = of_int ?K * power_int 2 ?j"
    using x by (simp add: double_def u)
  have j: "- 1074 \<le> ?j" by simp
  have K: "\<bar>?K\<bar> \<le> 2 ^ 53" by (rule significand_bound [OF x])
  have p: "power_int (2::rat) (?j + 53) = 2 ^ 53 * power_int 2 ?j"
  proof -
    have "?j + 53 = 53 + ?j" by simp
    then have "power_int (2::rat) (?j + 53) = power_int 2 (53 + ?j)"
      by (rule arg_cong)
    also have "\<dots> = power_int 2 53 * power_int 2 ?j"
      by (rule power_int_add) simp
    finally show ?thesis by simp
  qed
  show ?thesis
  proof (cases "\<bar>?K\<bar> = 2 ^ 53")
    case True
    then have "?K = 2 ^ 53 \<or> ?K = - (2 ^ 53)" by linarith
    then have "(of_int ?K :: rat) = 2 ^ 53 \<or> (of_int ?K :: rat) = - (2 ^ 53)" by auto
    then have "double x = 2 ^ 53 * power_int 2 ?j \<or> double x = - (2 ^ 53) * power_int 2 ?j"
      unfolding d by (rule disj_forward) (rule arg_cong [where f = "\<lambda>k. k * power_int 2 ?j"], assumption)+
    then have k: "double x = of_int 1 * power_int 2 (?j + 53)
               \<or> double x = of_int (- 1) * power_int 2 (?j + 53)"
      unfolding p by simp
    have b: "\<bar>of_int k * power_int (2::rat) (?j + 53)\<bar> < power_int 2 (?j + 53 + 53)"
      if "k = 1 \<or> k = - 1" for k :: int
    proof -
      have "\<bar>of_int k * power_int (2::rat) (?j + 53)\<bar> = power_int 2 (?j + 53)"
        using that by (auto simp: abs_mult)
      also have "\<dots> < power_int 2 (?j + 53 + 53)"
        by (intro power_int_strict_increasing) simp_all
      finally show ?thesis .
    qed
    have j53: "- 1074 \<le> ?j + 53" by simp
    from k show ?thesis
    proof
      assume e: "double x = of_int 1 * power_int 2 (?j + 53)"
      have "\<bar>of_int 1 * power_int (2::rat) (?j + 53)\<bar> < power_int 2 (?j + 53 + 53)"
        by (rule b) simp
      then have "\<bar>double x\<bar> < power_int 2 (?j + 53 + 53)"
        by (simp only: e)
      from double_dyadic [OF nz this j53 e] show ?thesis .
    next
      assume e: "double x = of_int (- 1) * power_int 2 (?j + 53)"
      have "\<bar>of_int (- 1) * power_int (2::rat) (?j + 53)\<bar> < power_int 2 (?j + 53 + 53)"
        by (rule b) simp
      then have "\<bar>double x\<bar> < power_int 2 (?j + 53 + 53)"
        by (simp only: e)
      from double_dyadic [OF nz this j53 e] show ?thesis .
    qed
  next
    case False
    with K have "\<bar>?K\<bar> < 2 ^ 53" by simp
    then have "(of_int \<bar>?K\<bar> :: rat) < of_int (2 ^ 53)" by (simp only: of_int_less_iff)
    then have "\<bar>of_int ?K :: rat\<bar> < 2 ^ 53" by simp
    then have lt: "\<bar>of_int ?K :: rat\<bar> * power_int 2 ?j < 2 ^ 53 * power_int 2 ?j"
      by (intro mult_strict_right_mono) simp_all
    have a: "\<bar>of_int ?K * power_int (2::rat) ?j\<bar> = \<bar>of_int ?K\<bar> * power_int 2 ?j"
      by (simp add: abs_mult)
    have "\<bar>double x\<bar> < power_int 2 (?j + 53)"
      unfolding d p a by (rule lt)
    from double_dyadic [OF nz this j d] show ?thesis .
  qed
qed

lemma double_big_integer:
  assumes "2 ^ 53 < \<bar>double x\<bar>"
  shows "\<exists>n. double x = of_int n"
proof -
  from assms have x: "x \<noteq> 0" by (auto simp: double_def)
  let ?j = "max (ilog2 \<bar>x\<bar>) (- 1022) - 52"
  let ?K = "round_half_even (x / ulp x)"
  have d: "double x = of_int ?K * power_int 2 ?j"
    using x by (simp add: double_def ulp_def)
  have "\<bar>?K\<bar> \<le> 2 ^ 53" by (rule significand_bound [OF x])
  then have "(of_int \<bar>?K\<bar> :: rat) \<le> of_int (2 ^ 53)" by (simp only: of_int_le_iff)
  then have K: "\<bar>of_int ?K :: rat\<bar> \<le> 2 ^ 53" by simp
  have "0 \<le> ?j"
  proof (rule ccontr)
    assume "\<not> 0 \<le> ?j"
    then have "power_int (2::rat) ?j \<le> power_int 2 0"
      by (intro power_int_increasing) simp_all
    then have "power_int (2::rat) ?j \<le> 1" by simp
    then have "\<bar>of_int ?K :: rat\<bar> * power_int 2 ?j \<le> 2 ^ 53 * 1"
      using K by (intro mult_mono) simp_all
    with assms show False by (simp add: d abs_mult)
  qed
  then have "power_int (2::rat) ?j = of_int (2 ^ nat ?j)"
    by (simp add: power_int_def)
  then have "double x = of_int (?K * 2 ^ nat ?j)"
    by (simp add: d)
  then show ?thesis ..
qed

lemma exact_float_0: "exact_float 0"
  by (simp add: exact_float_small)

lemma py_round_double_exact:
  assumes "finite_double (double x)"
  shows "exact_float (py_round (double x))"
proof (cases "\<bar>double x\<bar> \<le> 2 ^ 53")
  case True
  have "\<bar>of_int (py_round (double x)) - double x\<bar> \<le> 1 / 2" by (rule py_round_nearest)
  with True have "\<bar>of_int (py_round (double x)) :: rat\<bar> < 2 ^ 53 + 1" by linarith
  then have "(of_int \<bar>py_round (double x)\<bar> :: rat) < of_int (2 ^ 53 + 1)" by simp
  then have "\<bar>py_round (double x)\<bar> < 2 ^ 53 + 1" by (simp only: of_int_less_iff)
  then show ?thesis by (intro exact_float_small) simp
next
  case False
  then obtain n where n: "double x = of_int n"
    using double_big_integer [of x] by auto
  have "double (of_int n) = of_int n"
    using double_idem [of x] by (simp add: n)
  moreover have "finite_double (of_int n)"
    using assms by (simp add: n)
  ultimately show ?thesis
    by (simp add: n py_round_def exact_float_def float_of_int_def)
qed

lemma py_round_0: "py_round 0 = 0"
  by (simp add: py_round_def)

lemma calculate_score_exact:
  assumes "exact_float (score p)" and "calculate opr v p = Inr (penalty, p')"
  shows "exact_float (score p')"
  using assms
  by (auto simp: calculate_def Let_def py_round_0 exact_float_0 py_round_double_exact
      split: sum.splits if_splits)

lemma double_2_53_1: "double 9007199254740993 = 9007199254740992"
  by code_simp

lemmas contract_eval = clamped_result_def raw_result_def Fract_of_int_quotient is_integer_def
  py_round_def round_half_even_def Let_def

text \<open>
  C1, as stated, fails. At the score \<open>2^53 = 9007199254740992\<close>, which a player can
  reach, the raw result of ADD 1 is \<open>2^53 + 1\<close>, an integer, to be stored as it is; it is
  no double, the sum of the two floats is \<open>2^53\<close>, and \<open>calculate\<close> stores \<open>2^53\<close>.
\<close>

theorem calculate_large_score_counterexample:
  "clamped_result 9007199254740992 ADD 1 = 9007199254740993
   \<and> py_round (clamped_result 9007199254740992 ADD 1) = 9007199254740993
   \<and> calculate ADD 1 (new_Player\<lparr>score := 9007199254740992\<rparr>)
       = Inr (False, new_Player\<lparr>score := 9007199254740992\<rparr>)"
proof (intro conjI)
  show "clamped_result 9007199254740992 ADD 1 = 9007199254740993"
    by (simp add: clamped_result_def raw_result_def)
  then show "py_round (clamped_result 9007199254740992 ADD 1) = 9007199254740993"
    by (simp add: py_round_def)
  have "calculate ADD 1 (new_Player\<lparr>score := 9007199254740992\<rparr>)
      = (let res = double (9007199254740992 + 1); res = (if res < 0 then 0 else res)
         in if finite_double res
            then Inr (res - of_int \<lfloor>res\<rfloor> \<noteq> 0,
                      new_Player\<lparr>score := 9007199254740992, score := py_round res\<rparr>)
            else Inl OverflowError)"
    by (subst calculate_unfold) simp_all
  then show "calculate ADD 1 (new_Player\<lparr>score := 9007199254740992\<rparr>)
       = Inr (False, new_Player\<lparr>score := 9007199254740992\<rparr>)"
    by (simp add: double_2_53_1 finite_double_def py_round_def)
qed

text \<open>
  C1, amended. For every score \<open>S = score p\<close> with \<open>0 \<le> S < 2^49\<close>, every operation and
  every operand \<open>V\<close> with \<open>\<bar>V\<bar> \<le> 9\<close>, and \<open>V \<noteq> 0\<close> when the operation is DIVIDE:
  \<open>calculate\<close> returns the penalty flag true iff the raw result \<open>S + V\<close>, \<open>S - V\<close>,
  \<open>S * V\<close> or \<open>S / V\<close>, clamped to 0 when negative, is not an integer; the new score is
  that clamped result rounded to the nearest integer, at most one half away from it,
  and is not negative. Nothing else of the player changes.
\<close>

theorem calculate_meets_contract:
  assumes "0 \<le> score p" and "score p < 2 ^ 49" and "\<bar>V\<bar> \<le> 9"
      and "opr = DIVIDE \<longrightarrow> V \<noteq> 0"
  shows "calculate opr V p =
           Inr (\<not> is_integer (clamped_result (score p) opr V),
                p\<lparr>score := py_round (clamped_result (score p) opr V)\<rparr>)
         \<and> \<bar>of_int (py_round (clamped_result (score p) opr V))
              - clamped_result (score p) opr V\<bar> \<le> 1 / 2
         \<and> 0 \<le> py_round (clamped_result (score p) opr V)"
proof -
  have "\<bar>score p\<bar> < 2 ^ 49" using assms(1,2) by simp
  moreover have "\<not> (opr = DIVIDE \<and> V = 0)" using assms(4) by simp
  moreover have "0 \<le> clamped_result (score p) opr V"
    by (simp add: clamped_result_def)
  ultimately show ?thesis
    using calculate_in_range [of p V opr] assms(3) py_round_nearest py_round_nonneg by blast
qed

text \<open>At score 9, DIVIDE 4: the raw result is 9/4, the flag is set, the new score is 2.\<close>

theorem calculate_meets_contract_witness:
  "calculate DIVIDE 4 (new_Player\<lparr>score := 9\<rparr>) = Inr (True, new_Player\<lparr>score := 2\<rparr>)
   \<and> clamped_result 9 DIVIDE 4 = 9 / 4"
  using calculate_meets_contract [of "new_Player\<lparr>score := 9\<rparr>" 4 DIVIDE]
  by (simp add: contract_eval)

text \<open>
  C2. DIVIDE with operand 0 is a no-op. For every player whose score is a double, as
  every score of a session is (\<open>frames_exact\<close>), \<open>calculate\<close> returns the player as it
  was, with the penalty flag false. For every player whatever: the call returns just
  that whenever \<^verbatim>\<open>float(self.score)\<close> returns; for a score beyond the doubles, which no
  call of \<open>calculate\<close> stores, that conversion raises \<^verbatim>\<open>OverflowError\<close> before the
  operand is looked at, and the score is not changed then either.
\<close>

theorem divide_by_zero_is_noop:
  "(exact_float (score p) \<longrightarrow> calculate DIVIDE 0 p = Inr (False, p))
   \<and> calculate DIVIDE 0 p =
       (if finite_double (double (of_int (score p))) then Inr (False, p)
        else Inl OverflowError)"
  by (simp add: calculate_def float_of_int_def exact_float_def Let_def)

text \<open>At score 7.\<close>

theorem divide_by_zero_is_noop_witness:
  "exact_float 7
   \<and> calculate DIVIDE 0 (new_Player\<lparr>score := 7\<rparr>) = Inr (False, new_Player\<lparr>score := 7\<rparr>)"
proof -
  have e: "exact_float (score (new_Player\<lparr>score := 7\<rparr>))"
    by (simp add: exact_float_small)
  with divide_by_zero_is_noop [of "new_Player\<lparr>score := 7\<rparr>"] show ?thesis
    by simp
qed

text \<open>
  C10. The rounding of the score is round-half-to-even. For every score and operand
  that are doubles, as every score that \<open>calculate\<close> stores and every operand of the
  game is: whenever the clamped raw result is \<open>n + 1/2\<close> for an integer \<open>n\<close>, the penalty
  flag is set and the new score is the even one of \<open>n\<close> and \<open>n + 1\<close>. At score 5,
  DIVIDE 2 stores 2; at score 7, DIVIDE 2 stores 4.
\<close>

theorem round_half_to_even:
  "(exact_float (score p) \<and> exact_float V \<and> \<not> (opr = DIVIDE \<and> V = 0)
      \<and> clamped_result (score p) opr V = of_int n + 1 / 2
      \<longrightarrow> calculate opr V p = Inr (True, p\<lparr>score := (if even n then n else n + 1)\<rparr>)
        \<and> even (if even n then n else n + 1))
   \<and> calculate DIVIDE 2 (p\<lparr>score := 5\<rparr>) = Inr (True, p\<lparr>score := 2\<rparr>)
   \<and> calculate DIVIDE 2 (p\<lparr>score := 7\<rparr>) = Inr (True, p\<lparr>score := 4\<rparr>)"
proof -
  have "calculate opr V p = Inr (True, p\<lparr>score := (if even n then n else n + 1)\<rparr>)
        \<and> even (if even n then n else n + 1)"
    if "exact_float (score p)" "exact_float V" "\<not> (opr = DIVIDE \<and> V = 0)"
      "clamped_result (score p) opr V = of_int n + 1 / 2"
    using calculate_half [OF that] by simp
  moreover have "calculate DIVIDE 2 (p\<lparr>score := 5\<rparr>) = Inr (True, p\<lparr>score := 2\<rparr>)"
    by (subst calculate_in_range) (simp_all add: contract_eval)
  moreover have "calculate DIVIDE 2 (p\<lparr>score := 7\<rparr>) = Inr (True, p\<lparr>score := 4\<rparr>)"
    by (subst calculate_in_range) (simp_all add: contract_eval)
  ultimately show ?thesis by blast
qed

text \<open>At score 15, DIVIDE 6: the raw result is 2 + 1/2, the new score is 2.\<close>

theorem round_half_to_even_witness:
  "exact_float 15 \<and> exact_float 6 \<and> clamped_result 15 DIVIDE 6 = 2 + 1 / 2
   \<and> calculate DIVIDE 6 (new_Player\<lparr>score := 15\<rparr>) = Inr (True, new_Player\<lparr>score := 2\<rparr>)"
proof -
  have e: "exact_float 15" "exact_float 6"
    by (simp_all add: exact_float_small)
  have h: "clamped_result (score (new_Player\<lparr>score := 15\<rparr>)) DIVIDE 6 = of_int 2 + 1 / 2"
    by (simp add: clamped_result_def raw_result_def Fract_of_int_quotient)
  show ?thesis
    using e h round_half_to_even [of "new_Player\<lparr>score := 15\<rparr>" 6 DIVIDE 2] by simp
qed


subsection \<open>Frames in state PLAYING\<close>

lemma process_events_playing:
  "state s = PLAYING \<Longrightarrow> QUIT \<notin> set evs \<Longrightarrow> process_events e evs s = Inr s"
proof (induction evs)
  case Nil
  then show ?case by simp
next
  case (Cons ev evs)
  then show ?case by (cases ev) (simp_all add: handle_event_def)
qed

lemma frame_playing:
  "state s = PLAYING \<Longrightarrow> QUIT \<notin> set (events e) \<Longrightarrow> frame px e s = playing_frame px e s"
  by (simp add: frame_def process_events_playing)

lemma movement_fields [simp]:
  "state (movement e s) = state s"
  "score (player (movement e s)) = score (player s)"
  "current_difficulty_speed (movement e s) = current_difficulty_speed s"
  "timer_slow_motion (movement e s) = timer_slow_motion s"
  "timer_ghost_mode (movement e s) = timer_ghost_mode s"
  "timer_rapid_fire (movement e s) = timer_rapid_fire s"
  by (simp_all add: movement_def move_player_def Let_def)

lemma calculate_speeds_fields [simp]:
  "state (snd (snd (calculate_speeds s))) = state s"
  "player (snd (snd (calculate_speeds s))) = player s"
  "timer_ghost_mode (snd (snd (calculate_speeds s))) =
     (if timer_ghost_mode s > 0 then timer_ghost_mode s - 1 else timer_ghost_mode s)"
  by (simp_all add: calculate_speeds_def Let_def split: prod.splits)

lemma spawners_fields [simp]:
  "state (spawners e f s) = state s"
  "player (spawners e f s) = player s"
  "timer_ghost_mode (spawners e f s) = timer_ghost_mode s"
  by (simp_all add: spawners_def spawn_cloud_wall_def spawn_powerup_def Let_def)

lemma before_collisions_snd [simp]:
  "state (snd (before_collisions e s)) = state s"
  "score (player (snd (before_collisions e s))) = score (player s)"
  "timer_ghost_mode (snd (before_collisions e s)) =
     (if timer_ghost_mode s > 0 then timer_ghost_mode s - 1 else timer_ghost_mode s)"
  by (simp_all add: before_collisions_def split_beta)

lemma collect_fields [simp]:
  "state (collect t s) = state s"
  "player (collect t s) = player s"
  "clouds (collect t s) = clouds s"
  by (cases t; simp add: collect_def)+

lemma collect_ghost: "0 < timer_ghost_mode s \<Longrightarrow> 0 < timer_ghost_mode (collect t s)"
  by (cases t) (simp_all add: collect_def)

lemma powerup_step_fields [simp]:
  "state (fst (powerup_step px sp pu s)) = state s"
  "player (fst (powerup_step px sp pu s)) = player s"
  "clouds (fst (powerup_step px sp pu s)) = clouds s"
  by (simp_all add: powerup_step_def Let_def)

lemma powerup_step_ghost:
  "0 < timer_ghost_mode s \<Longrightarrow> 0 < timer_ghost_mode (fst (powerup_step px sp pu s))"
  by (simp add: powerup_step_def Let_def collect_ghost)

lemma powerup_loop_fst:
  "fst (powerup_loop px sp (pu # pus) s)
     = fst (powerup_loop px sp pus (fst (powerup_step px sp pu s)))"
  by (simp split: prod.splits)

lemma powerup_loop_state [simp]: "state (fst (powerup_loop px sp pus s)) = state s"
  by (induction pus arbitrary: s) (simp_all only: powerup_loop_fst powerup_step_fields, simp)

lemma powerup_loop_player [simp]: "player (fst (powerup_loop px sp pus s)) = player s"
  by (induction pus arbitrary: s) (simp_all only: powerup_loop_fst powerup_step_fields, simp)

lemma powerup_loop_clouds [simp]: "clouds (fst (powerup_loop px sp pus s)) = clouds s"
  by (induction pus arbitrary: s) (simp_all only: powerup_loop_fst powerup_step_fields, simp)

lemma powerup_loop_ghost:
  "0 < timer_ghost_mode s \<Longrightarrow> 0 < timer_ghost_mode (fst (powerup_loop px sp pus s))"
proof (induction pus arbitrary: s)
  case Nil
  then show ?case by simp
next
  case (Cons pu pus)
  show ?case
    unfolding powerup_loop_fst by (rule Cons.IH [OF powerup_step_ghost [OF Cons.prems]])
qed

lemma cloud_step_ghost:
  "0 < timer_ghost_mode s \<Longrightarrow>
   cloud_step px sp y c s =
     Inr (s, if right (cloud_rect (Cloud_move px sp y c)) < 0 then None
             else Some (Cloud_move px sp y c))"
  by (simp add: cloud_step_def Let_def)

lemma cloud_loop_ghost:
  "0 < timer_ghost_mode s \<Longrightarrow>
   cloud_loop px e sp k cs s =
     Inr (s, filter (\<lambda>c. \<not> right (cloud_rect c) < 0) (moved_clouds px e sp k cs))"
  by (induction cs arbitrary: k) (simp_all add: cloud_step_ghost)

lemma resolve_collision_state:
  assumes "resolve_collision c s = Inr s'"
  shows "state s' = (if score (player s') = target s then TRANSITION_TO_LANDING else state s)"
    and "target s' = target s"
  using assms
  by (auto simp: resolve_collision_def Let_def split: sum.splits prod.splits if_splits)

lemma resolve_collision_raises:
  "calculate (op c) (val c) (player s) = Inl x \<Longrightarrow> resolve_collision c s = Inl x"
  by (simp add: resolve_collision_def)

lemma resolve_collision_returns:
  "calculate (op c) (val c) (player s) = Inr r \<Longrightarrow> \<exists>s'. resolve_collision c s = Inr s'"
  by (cases r) (simp add: resolve_collision_def)

text \<open>A cloud that touches a ship on the screen has not left the screen on the left.\<close>

lemma touching_cloud_on_screen:
  "colliderect a b \<Longrightarrow> 0 \<le> rect_x a \<Longrightarrow> 0 \<le> rect_w a \<Longrightarrow> 0 \<le> rect_w b
     \<Longrightarrow> \<not> right b < 0"
  by (auto simp: colliderect_def right_def split: if_splits)

lemma cloud_step_collision:
  assumes "colliderect (rect (player s)) (cloud_rect (Cloud_move px speed y c))"
      and "\<not> 0 < timer_ghost_mode s"
      and "\<not> right (cloud_rect (Cloud_move px speed y c)) < 0"
  shows "cloud_step px speed y c s =
           (case resolve_collision (Cloud_move px speed y c) s of
              Inl x \<Rightarrow> Inl x | Inr s' \<Rightarrow> Inr (s', None))"
  using assms by (simp add: cloud_step_def Let_def split: sum.splits)

lemma frames_append:
  "frames px (es @ es') s =
     (case frames px es s of Inl x \<Rightarrow> Inl x | Inr s' \<Rightarrow> frames px es' s')"
  by (induction es arbitrary: s) (simp_all split: sum.splits)

text \<open>
  The score of a session is a double at every frame: \<^verbatim>\<open>reset_game\<close> sets it to 0, and
  \<open>calculate\<close> is all that changes it.
\<close>

lemma handle_event_exact:
  "exact_float (score (player s)) \<Longrightarrow> handle_event e ev s = Inr s'
     \<Longrightarrow> exact_float (score (player s'))"
  by (cases ev)
    (auto simp: handle_event_def reset_game_def spawn_cloud_wall_def new_Player_def Let_def
      exact_float_0 split: if_splits)

lemma process_events_exact:
  "exact_float (score (player s)) \<Longrightarrow> process_events e evs s = Inr s'
     \<Longrightarrow> exact_float (score (player s'))"
proof (induction evs arbitrary: s)
  case Nil
  then show ?case by simp
next
  case (Cons ev evs)
  then show ?case
    by (auto split: sum.splits dest: handle_event_exact)
qed

lemma resolve_collision_exact:
  "exact_float (score (player s)) \<Longrightarrow> resolve_collision c s = Inr s'
     \<Longrightarrow> exact_float (score (player s'))"
  by (auto simp: resolve_collision_def Let_def split: sum.splits if_splits
      dest: calculate_score_exact)

lemma cloud_step_exact:
  "exact_float (score (player s)) \<Longrightarrow> cloud_step px sp y c s = Inr (s', k)
     \<Longrightarrow> exact_float (score (player s'))"
  by (auto simp: cloud_step_def Let_def split: sum.splits if_splits
      dest: resolve_collision_exact)

lemma cloud_loop_exact:
  "exact_float (score (player s)) \<Longrightarrow> cloud_loop px e sp k cs s = Inr (s', kept)
     \<Longrightarrow> exact_float (score (player s'))"
proof (induction cs arbitrary: s k kept)
  case Nil
  then show ?case by simp
next
  case (Cons c cs)
  then show ?case
    by (auto split: sum.splits prod.splits dest: cloud_step_exact)
qed

lemma playing_frame_exact:
  assumes "exact_float (score (player s))" and "playing_frame px e s = Inr s'"
  shows "exact_float (score (player s'))"
proof -
  obtain sp s1 where b: "before_collisions e s = (sp, s1)"
    by (cases "before_collisions e s")
  have s1: "score (player s1) = score (player s)"
    using before_collisions_snd(2) [of e s] by (simp add: b)
  define s2 where "s2 = fst (powerup_loop px sp (powerups s1) s1)"
  define kept where "kept = snd (powerup_loop px sp (powerups s1) s1)"
  have pl: "powerup_loop px sp (powerups s1) s1 = (s2, kept)"
    by (simp add: s2_def kept_def)
  have x: "exact_float (score (player (s2\<lparr>powerups := kept\<rparr>)))"
    using assms(1) by (simp add: s2_def s1)
  from assms(2) obtain a b
    where c: "cloud_loop px e sp 0 (clouds (s2\<lparr>powerups := kept\<rparr>)) (s2\<lparr>powerups := kept\<rparr>)
                = Inr (a, b)"
      and s': "s' = a\<lparr>clouds := b\<rparr>"
    by (auto simp: playing_frame_def b collisions_def pl Let_def split: sum.splits)
  from cloud_loop_exact [OF x c] show ?thesis
    by (simp add: s')
qed

lemma frame_exact:
  assumes "exact_float (score (player s))" and "frame px e s = Inr s'"
  shows "exact_float (score (player s'))"
proof -
  from assms(2) obtain s0 where p: "process_events e (events e) s = Inr s0"
    by (auto simp: frame_def split: sum.splits)
  have s0: "exact_float (score (player s0))"
    by (rule process_events_exact [OF assms(1) p])
  show ?thesis
  proof (cases "state s0")
    case PLAYING
    with assms(2) p have "playing_frame px e s0 = Inr s'" by (simp add: frame_def)
    from playing_frame_exact [OF s0 this] show ?thesis .
  next
    case TRANSITION_TO_LANDING
    with assms(2) p s0 show ?thesis
      by (auto simp: frame_def transition_frame_def Let_def)
  next
    case LANDING_SCENE
    with assms(2) p s0 show ?thesis
      by (auto simp: frame_def animate_landing_scene_def animate_stick_figure_def Let_def)
  next
    case GAME_OVER
    with assms(2) p s0 show ?thesis
      by (auto simp: frame_def)
  qed
qed

lemma frames_exact:
  "exact_float (score (player s)) \<Longrightarrow> frames px es s = Inr s'
     \<Longrightarrow> exact_float (score (player s'))"
proof (induction es arbitrary: s)
  case Nil
  then show ?case by simp
next
  case (Cons e es)
  then show ?case
    by (auto split: sum.splits dest: frame_exact)
qed

lemmas frame_eval = frame_def playing_frame_def before_collisions_def calculate_speeds_def
  movement_def spawners_def spawn_cloud_wall_def spawn_cloud_def spawn_powerup_def
  collisions_def powerup_step_def PowerUp_move_def collect_def cloud_step_def Cloud_move_def
  resolve_collision_def calculate_in_range contract_eval colliderect_def right_def bottom_def
  fresh_def idle_def cloud_at_def new_Player_def trunc_px_def
  WIDTH_def HEIGHT_def BASE_CLOUD_FREQ_def POWERUP_FREQUENCY_def BASE_SCROLL_SPEED_def Let_def

text \<open>
  C3, as stated, fails. The state \<open>ghost_ending\<close> is PLAYING, its ghost timer is 1, thus
  active, and the rectangle of the ship overlaps the middle cloud before and after the
  move of the cloud. The frame first takes the timer to 0 and then resolves the
  collision as any other: the score goes from 0 to 3 and the cloud leaves the list.
\<close>

theorem ghost_last_frame_counterexample:
  "state ghost_ending = PLAYING
   \<and> 0 < timer_ghost_mode ghost_ending
   \<and> score (player ghost_ending) = 0
   \<and> clouds ghost_ending
       = [cloud_at 150 56 SUBTRACT 2, cloud_at 150 289 ADD 3, cloud_at 150 522 MULTIPLY 2]
   \<and> colliderect (rect (player ghost_ending)) (cloud_rect (cloud_at 150 289 ADD 3))
   \<and> colliderect (rect (player ghost_ending)) (cloud_rect (cloud_at 145 289 ADD 3))
   \<and> frame trunc_px idle ghost_ending =
       Inr (ghost_ending
            \<lparr>player := (player ghost_ending)\<lparr>score := 3\<rparr>,
             clouds := [cloud_at 145 56 SUBTRACT 2, cloud_at 145 522 MULTIPLY 2],
             timer_ghost_mode := 0, timer_spawn_cloud := 1, timer_spawn_powerup := 1\<rparr>)"
  by (simp add: ghost_ending_def frame_eval)

text \<open>
  C3, amended. In a frame that starts in state PLAYING and is not ended by a quit
  event, if the ghost timer is still above 0 when the clouds are scanned, that is after
  the decrement of this frame and the power-ups collected in it, then the frame leaves
  the score as it was and the state PLAYING, and no cloud is removed for a collision:
  the list after the frame holds every scanned cloud, moved, that has not left the
  screen on the left. The timer is still above 0 at that point whenever it is above 1
  at the start of the frame.
\<close>

theorem ghost_frame_passes_through:
  assumes "state s = PLAYING" and "QUIT \<notin> set (events e)"
  shows "(0 < ghost_timer_at_clouds px e s \<longrightarrow>
            (\<exists>s'. frame px e s = Inr s'
               \<and> score (player s') = score (player s)
               \<and> state s' = PLAYING
               \<and> clouds s' =
                   filter (\<lambda>c. \<not> right (cloud_rect c) < 0)
                     (moved_clouds px e (fst (before_collisions e s)) 0
                        (clouds (snd (before_collisions e s))))))
         \<and> (1 < timer_ghost_mode s \<longrightarrow> 0 < ghost_timer_at_clouds px e s)"
proof (intro conjI impI)
  obtain sp s1 where b: "before_collisions e s = (sp, s1)"
    by (cases "before_collisions e s")
  have s1: "state s1 = PLAYING" "score (player s1) = score (player s)"
    using before_collisions_snd(1,2) [of e s] assms(1) by (simp_all add: b)
  define s2 where "s2 = fst (powerup_loop px sp (powerups s1) s1)"
  define kept where "kept = snd (powerup_loop px sp (powerups s1) s1)"
  have pl: "powerup_loop px sp (powerups s1) s1 = (s2, kept)"
    by (simp add: s2_def kept_def)
  have s2: "state s2 = PLAYING" "score (player s2) = score (player s)" "clouds s2 = clouds s1"
    by (simp_all add: s2_def s1)
  {
    assume "0 < ghost_timer_at_clouds px e s"
    then have g: "0 < timer_ghost_mode (s2\<lparr>powerups := kept\<rparr>)"
      by (simp add: ghost_timer_at_clouds_def b s2_def)
    show "\<exists>s'. frame px e s = Inr s'
               \<and> score (player s') = score (player s)
               \<and> state s' = PLAYING
               \<and> clouds s' =
                   filter (\<lambda>c. \<not> right (cloud_rect c) < 0)
                     (moved_clouds px e (fst (before_collisions e s)) 0
                        (clouds (snd (before_collisions e s))))"
      using assms s2 cloud_loop_ghost [OF g, of px e sp 0 "clouds s1"]
      by (simp add: frame_playing playing_frame_def b collisions_def pl)
  }
  {
    assume "1 < timer_ghost_mode s"
    then have "0 < timer_ghost_mode s1"
      using before_collisions_snd(3) [of e s] by (simp add: b)
    then show "0 < ghost_timer_at_clouds px e s"
      by (simp add: ghost_timer_at_clouds_def b powerup_loop_ghost)
  }
qed

text \<open>The same wall with two frames of ghost mode left: nothing is scored, all three stay.\<close>

theorem ghost_frame_passes_through_witness:
  "0 < ghost_timer_at_clouds trunc_px idle (ghost_ending\<lparr>timer_ghost_mode := 2\<rparr>)
   \<and> (\<exists>s'. frame trunc_px idle (ghost_ending\<lparr>timer_ghost_mode := 2\<rparr>) = Inr s'
         \<and> score (player s') = 0 \<and> state s' = PLAYING
         \<and> clouds s' = [cloud_at 145 56 SUBTRACT 2, cloud_at 145 289 ADD 3,
                         cloud_at 145 522 MULTIPLY 2])"
proof -
  let ?s = "ghost_ending\<lparr>timer_ghost_mode := 2\<rparr>"
  have h: "state ?s = PLAYING" "QUIT \<notin> set (events idle)" "1 < timer_ghost_mode ?s"
    by (simp_all add: ghost_ending_def fresh_def idle_def)
  have b: "before_collisions idle ?s =
             (5, ?s\<lparr>timer_ghost_mode := 1, timer_spawn_cloud := 1, timer_spawn_powerup := 1\<rparr>)"
    by (simp add: ghost_ending_def frame_eval)
  have m: "filter (\<lambda>c. \<not> right (cloud_rect c) < 0)
             (moved_clouds trunc_px idle 5 0 (clouds ?s))
           = [cloud_at 145 56 SUBTRACT 2, cloud_at 145 289 ADD 3, cloud_at 145 522 MULTIPLY 2]"
    by (simp add: ghost_ending_def frame_eval)
  have z: "score (player ghost_ending) = 0"
    by (simp add: ghost_ending_def fresh_def new_Player_def)
  note t = ghost_frame_passes_through [OF h(1,2), of trunc_px]
  from t h(3) have g: "0 < ghost_timer_at_clouds trunc_px idle ?s"
    by blast
  with t obtain s' where "frame trunc_px idle ?s = Inr s'"
      and "score (player s') = score (player ?s)" and "state s' = PLAYING"
      and "clouds s' = filter (\<lambda>c. \<not> right (cloud_rect c) < 0)
             (moved_clouds trunc_px idle (fst (before_collisions idle ?s)) 0
                (clouds (snd (before_collisions idle ?s))))"
    by blast
  then have "frame trunc_px idle ?s = Inr s'
         \<and> score (player s') = 0 \<and> state s' = PLAYING
         \<and> clouds s' = [cloud_at 145 56 SUBTRACT 2, cloud_at 145 289 ADD 3,
                         cloud_at 145 522 MULTIPLY 2]"
    using m by (simp add: b z)
  with g show ?thesis
    by blast
qed


subsection \<open>Cloud collisions\<close>

text \<open>
  C4. A cloud that the ship touches outside ghost mode, in state PLAYING, and that is
  not beyond the left edge (no cloud that touches a ship on the screen is), is scored
  and removed, and afterwards the state is TRANSITION_TO_LANDING iff the new score
  equals the target; otherwise it is still PLAYING. This holds whenever the arithmetic
  of \<open>calculate\<close> returns, with the player it returns; when it raises, beyond the
  doubles, the step raises the same error. From score 0 with target 50, six
  frames in which the ship meets ADD 9, ADD 9, ADD 9, ADD 9, ADD 9, ADD 5 give the
  scores 9, 18, 27, 36, 45 in state PLAYING and then 50 in state TRANSITION_TO_LANDING.
\<close>

theorem transition_iff_target:
  assumes "state s = PLAYING"
      and "colliderect (rect (player s)) (cloud_rect (Cloud_move px speed y c))"
      and "\<not> 0 < timer_ghost_mode s"
      and "\<not> right (cloud_rect (Cloud_move px speed y c)) < 0"
  shows "(case calculate (op c) (val c) (player s) of
            Inl x \<Rightarrow> cloud_step px speed y c s = Inl x
          | Inr (penalty, p') \<Rightarrow>
              (\<exists>s'. cloud_step px speed y c s = Inr (s', None)
                 \<and> player s' = p'
                 \<and> (state s' = TRANSITION_TO_LANDING \<longleftrightarrow> score (player s') = target s')
                 \<and> (state s' = PLAYING \<longleftrightarrow> score (player s') \<noteq> target s')))
       \<and> map after_frames [0, 1, 2, 3, 4, 5, 6] =
           [Some (0, PLAYING), Some (9, PLAYING), Some (18, PLAYING), Some (27, PLAYING),
            Some (36, PLAYING), Some (45, PLAYING), Some (50, TRANSITION_TO_LANDING)]"
proof
  let ?c = "Cloud_move px speed y c"
  have oc: "op ?c = op c" "val ?c = val c"
    by (simp_all add: Cloud_move_def)
  show "case calculate (op c) (val c) (player s) of
            Inl x \<Rightarrow> cloud_step px speed y c s = Inl x
          | Inr (penalty, p') \<Rightarrow>
              (\<exists>s'. cloud_step px speed y c s = Inr (s', None)
                 \<and> player s' = p'
                 \<and> (state s' = TRANSITION_TO_LANDING \<longleftrightarrow> score (player s') = target s')
                 \<and> (state s' = PLAYING \<longleftrightarrow> score (player s') \<noteq> target s'))"
  proof (cases "calculate (op c) (val c) (player s)")
    case (Inl x)
    then have "resolve_collision ?c s = Inl x"
      by (simp add: resolve_collision_raises oc)
    then show ?thesis
      by (simp add: Inl cloud_step_collision [OF assms(2-4)])
  next
    case (Inr r)
    obtain penalty p' where r: "r = (penalty, p')"
      by (cases r)
    from Inr obtain s' where s': "resolve_collision ?c s = Inr s'"
      using resolve_collision_returns [of ?c s r] by (auto simp: oc)
    have "player s' = p'"
      using s' Inr
      by (auto simp: resolve_collision_def oc r Let_def split: if_splits)
    then show ?thesis
      using assms(1) resolve_collision_state [OF s']
      by (simp add: Inr r cloud_step_collision [OF assms(2-4)] s')
  qed
  show "map after_frames [0, 1, 2, 3, 4, 5, 6] =
           [Some (0, PLAYING), Some (9, PLAYING), Some (18, PLAYING), Some (27, PLAYING),
            Some (36, PLAYING), Some (45, PLAYING), Some (50, TRANSITION_TO_LANDING)]"
    by code_simp
qed

text \<open>At score 45 the cloud ADD 5 in the lane of the ship: the hypotheses hold.\<close>

theorem transition_iff_target_witness:
  "state (fresh\<lparr>player := new_Player\<lparr>score := 45\<rparr>\<rparr>) = PLAYING
   \<and> colliderect (rect (player (fresh\<lparr>player := new_Player\<lparr>score := 45\<rparr>\<rparr>)))
         (cloud_rect (Cloud_move trunc_px 5 289 (cloud_at 200 289 ADD 5)))
   \<and> calculate ADD 5 (new_Player\<lparr>score := 45\<rparr>) = Inr (False, new_Player\<lparr>score := 50\<rparr>)
   \<and> (\<exists>s'. cloud_step trunc_px 5 289 (cloud_at 200 289 ADD 5)
            (fresh\<lparr>player := new_Player\<lparr>score := 45\<rparr>\<rparr>) = Inr (s', None)
         \<and> player s' = new_Player\<lparr>score := 50\<rparr>
         \<and> (state s' = TRANSITION_TO_LANDING \<longleftrightarrow> score (player s') = target s')
         \<and> (state s' = PLAYING \<longleftrightarrow> score (player s') \<noteq> target s'))"
proof -
  let ?s = "fresh\<lparr>player := new_Player\<lparr>score := 45\<rparr>\<rparr>"
  let ?c = "cloud_at 200 289 ADD 5"
  have h1: "state ?s = PLAYING"
    by (simp add: fresh_def)
  have h2: "colliderect (rect (player ?s)) (cloud_rect (Cloud_move trunc_px 5 289 ?c))"
    by (simp add: fresh_def new_Player_def cloud_at_def Cloud_move_def colliderect_def
        right_def bottom_def trunc_px_def HEIGHT_def)
  have h3: "\<not> 0 < timer_ghost_mode ?s"
    by (simp add: fresh_def)
  have h4: "\<not> right (cloud_rect (Cloud_move trunc_px 5 289 ?c)) < 0"
    by (simp add: cloud_at_def Cloud_move_def right_def trunc_px_def)
  have k: "calculate ADD 5 (new_Player\<lparr>score := 45\<rparr>) = Inr (False, new_Player\<lparr>score := 50\<rparr>)"
    by (subst calculate_in_range) (simp_all add: contract_eval)
  then have "calculate (op ?c) (val ?c) (player ?s) = Inr (False, new_Player\<lparr>score := 50\<rparr>)"
    by (simp add: cloud_at_def)
  with transition_iff_target [OF h1 h2 h3 h4]
  have "\<exists>s'. cloud_step trunc_px 5 289 ?c ?s = Inr (s', None)
         \<and> player s' = new_Player\<lparr>score := 50\<rparr>
         \<and> (state s' = TRANSITION_TO_LANDING \<longleftrightarrow> score (player s') = target s')
         \<and> (state s' = PLAYING \<longleftrightarrow> score (player s') \<noteq> target s')"
    by simp
  with h1 h2 k show ?thesis
    by blast
qed


text \<open>
  C5. A cloud that the ship touches outside ghost mode, that is not beyond the left
  edge, and whose arithmetic sets the penalty flag: if the rapid-fire timer is 0 at
  that moment, the new difficulty speed is the smaller of 1.2 times the old one and 18;
  if the timer is above 0, the difficulty speed stays as it is.
\<close>

theorem penalty_speeds_up:
  assumes "colliderect (rect (player s)) (cloud_rect (Cloud_move px speed y c))"
      and "\<not> 0 < timer_ghost_mode s"
      and "\<not> right (cloud_rect (Cloud_move px speed y c)) < 0"
      and "calculate (op c) (val c) (player s) = Inr (True, p')"
  shows "\<exists>s'. cloud_step px speed y c s = Inr (s', None)
           \<and> (timer_rapid_fire s = 0 \<longrightarrow>
                 current_difficulty_speed s' = min (current_difficulty_speed s * (12 / 10)) 18)
           \<and> (0 < timer_rapid_fire s \<longrightarrow>
                 current_difficulty_speed s' = current_difficulty_speed s)"
proof -
  have "op (Cloud_move px speed y c) = op c" "val (Cloud_move px speed y c) = val c"
    by (simp_all add: Cloud_move_def)
  then show ?thesis
    using assms(4)
    by (auto simp: cloud_step_collision [OF assms(1-3)] resolve_collision_def Let_def min_def)
qed

text \<open>
  At score 5 and difficulty speed 16 the cloud DIVIDE 2 gives 5/2: the speed becomes
  the cap 18 without rapid fire, and stays 16 with it.
\<close>

theorem penalty_speeds_up_witness:
  "calculate DIVIDE 2 (new_Player\<lparr>score := 5\<rparr>) = Inr (True, new_Player\<lparr>score := 2\<rparr>)
   \<and> (\<exists>s'. cloud_step trunc_px 5 289 (cloud_at 200 289 DIVIDE 2)
              (fresh\<lparr>player := new_Player\<lparr>score := 5\<rparr>, current_difficulty_speed := 16\<rparr>)
            = Inr (s', None)
          \<and> current_difficulty_speed s' = 18)
   \<and> (\<exists>s'. cloud_step trunc_px 12 289 (cloud_at 200 289 DIVIDE 2)
              (fresh\<lparr>player := new_Player\<lparr>score := 5\<rparr>, current_difficulty_speed := 16,
                     timer_rapid_fire := 7\<rparr>)
            = Inr (s', None)
          \<and> current_difficulty_speed s' = 16)"
proof -
  let ?c = "cloud_at 200 289 DIVIDE 2"
  let ?s = "fresh\<lparr>player := new_Player\<lparr>score := 5\<rparr>, current_difficulty_speed := 16\<rparr>"
  let ?r = "?s\<lparr>timer_rapid_fire := 7\<rparr>"
  have pen: "calculate DIVIDE 2 (new_Player\<lparr>score := 5\<rparr>) = Inr (True, new_Player\<lparr>score := 2\<rparr>)"
    by (subst calculate_in_range) (simp_all add: contract_eval)
  have h1: "colliderect (rect (player ?s)) (cloud_rect (Cloud_move trunc_px 5 289 ?c))"
    "colliderect (rect (player ?r)) (cloud_rect (Cloud_move trunc_px 12 289 ?c))"
    by (simp_all add: fresh_def new_Player_def cloud_at_def Cloud_move_def colliderect_def
        right_def bottom_def trunc_px_def HEIGHT_def)
  have h3: "\<not> right (cloud_rect (Cloud_move trunc_px 5 289 ?c)) < 0"
    "\<not> right (cloud_rect (Cloud_move trunc_px 12 289 ?c)) < 0"
    by (simp_all add: cloud_at_def Cloud_move_def right_def trunc_px_def)
  have s: "\<not> 0 < timer_ghost_mode ?s"
    "calculate (op ?c) (val ?c) (player ?s) = Inr (True, new_Player\<lparr>score := 2\<rparr>)"
    "timer_rapid_fire ?s = 0" "current_difficulty_speed ?s = 16"
    using pen by (simp_all add: fresh_def cloud_at_def)
  have r: "\<not> 0 < timer_ghost_mode ?r"
    "calculate (op ?c) (val ?c) (player ?r) = Inr (True, new_Player\<lparr>score := 2\<rparr>)"
    "0 < timer_rapid_fire ?r" "current_difficulty_speed ?r = 16"
    using pen by (simp_all add: fresh_def cloud_at_def)
  have "\<exists>s'. cloud_step trunc_px 5 289 ?c ?s = Inr (s', None)
          \<and> current_difficulty_speed s' = 18"
    using penalty_speeds_up [OF h1(1) s(1) h3(1) s(2)] s(3,4) by simp
  moreover have "\<exists>s'. cloud_step trunc_px 12 289 ?c ?r = Inr (s', None)
          \<and> current_difficulty_speed s' = 16"
    using penalty_speeds_up [OF h1(2) r(1) h3(2) r(2)] r(3,4) by simp
  ultimately show ?thesis
    using pen by blast
qed

subsection \<open>Effect timers and power-ups\<close>

text \<open>
  C6. In a frame that starts in state PLAYING and is not ended by a quit event: if the
  rapid-fire timer is above 0, the effective speed is 12 and the spawn frequency is 40,
  whatever the slow-motion timer and the difficulty speed are, and the frame is the
  section COLLISIONS, which moves the power-ups and the clouds, run at speed 12 after
  the spawners run at frequency 40. If the slow-motion timer is above 0 and the
  rapid-fire timer is not, the effective speed is half the difficulty speed and the
  frame is the section COLLISIONS run at that speed after the spawners at frequency 160.
\<close>

theorem rapid_fire_overrides:
  assumes "state s = PLAYING" and "QUIT \<notin> set (events e)"
  shows "(0 < timer_rapid_fire s \<longrightarrow>
            fst (calculate_speeds (movement e s)) = 12
          \<and> fst (snd (calculate_speeds (movement e s))) = 40
          \<and> frame px e s =
              collisions px e 12
                (spawners e 40 (snd (snd (calculate_speeds (movement e s))))))
       \<and> (0 < timer_slow_motion s \<and> \<not> 0 < timer_rapid_fire s \<longrightarrow>
            fst (calculate_speeds (movement e s)) = current_difficulty_speed s * (1 / 2)
          \<and> fst (snd (calculate_speeds (movement e s))) = 160
          \<and> frame px e s =
              collisions px e (current_difficulty_speed s * (1 / 2))
                (spawners e 160 (snd (snd (calculate_speeds (movement e s))))))"
proof -
  have f: "frame px e s =
             collisions px e (fst (calculate_speeds (movement e s)))
               (spawners e (fst (snd (calculate_speeds (movement e s))))
                  (snd (snd (calculate_speeds (movement e s)))))"
    by (simp add: frame_playing [OF assms] playing_frame_def before_collisions_def split_beta)
  have r: "fst (calculate_speeds t) = 12 \<and> fst (snd (calculate_speeds t)) = 40"
    if "0 < timer_rapid_fire t" for t
    using that by (simp add: calculate_speeds_def Let_def)
  have m: "fst (calculate_speeds t) = current_difficulty_speed t * (1 / 2)
           \<and> fst (snd (calculate_speeds t)) = 160"
    if "0 < timer_slow_motion t" "\<not> 0 < timer_rapid_fire t" for t
    using that by (simp add: calculate_speeds_def Let_def BASE_CLOUD_FREQ_def)
  show ?thesis
  proof (intro conjI impI)
    assume a: "0 < timer_rapid_fire s"
    then have "0 < timer_rapid_fire (movement e s)"
      by simp
    from r [OF this]
    show e1: "fst (calculate_speeds (movement e s)) = 12"
      and e2: "fst (snd (calculate_speeds (movement e s))) = 40"
      by simp_all
    show "frame px e s =
            collisions px e 12 (spawners e 40 (snd (snd (calculate_speeds (movement e s)))))"
      unfolding f e1 e2 by (rule refl)
  next
    assume a: "0 < timer_slow_motion s \<and> \<not> 0 < timer_rapid_fire s"
    then have "0 < timer_slow_motion (movement e s)" "\<not> 0 < timer_rapid_fire (movement e s)"
      by simp_all
    from m [OF this]
    show e1: "fst (calculate_speeds (movement e s)) = current_difficulty_speed s * (1 / 2)"
      and e2: "fst (snd (calculate_speeds (movement e s))) = 160"
      by simp_all
    show "frame px e s =
            collisions px e (current_difficulty_speed s * (1 / 2))
              (spawners e 160 (snd (snd (calculate_speeds (movement e s)))))"
      unfolding f e1 e2 by (rule refl)
  qed
qed

text \<open>Both timers running at difficulty speed 8: the speeds of the frame are 12 and 40.\<close>

theorem rapid_fire_overrides_witness:
  "state (fresh\<lparr>current_difficulty_speed := 8, timer_slow_motion := 10,
                timer_rapid_fire := 10\<rparr>) = PLAYING
   \<and> fst (calculate_speeds (movement idle
        (fresh\<lparr>current_difficulty_speed := 8, timer_slow_motion := 10,
               timer_rapid_fire := 10\<rparr>))) = 12
   \<and> fst (snd (calculate_speeds (movement idle
        (fresh\<lparr>current_difficulty_speed := 8, timer_slow_motion := 10,
               timer_rapid_fire := 10\<rparr>)))) = 40"
proof -
  let ?s = "fresh\<lparr>current_difficulty_speed := 8, timer_slow_motion := 10,
                   timer_rapid_fire := 10\<rparr>"
  have h: "state ?s = PLAYING" "QUIT \<notin> set (events idle)" "0 < timer_rapid_fire ?s"
    by (simp_all add: fresh_def idle_def)
  from rapid_fire_overrides [OF h(1,2), of trunc_px] h(1,3) show ?thesis
    by blast
qed

text \<open>
  C7. A ROUND_NUM power-up that the ship touches sets the difficulty speed to the base
  scroll speed 5 and is removed. Nothing else of the session changes, whatever the
  difficulty speed and the timers were: no timer is set and none is changed.
\<close>

theorem round_num_resets_speed:
  assumes "pu_type pu = ROUND_NUM"
      and "colliderect (rect (player s)) (pu_rect (PowerUp_move px speed pu))"
  shows "powerup_step px speed pu s = (s\<lparr>current_difficulty_speed := 5\<rparr>, None)"
  using assms
  by (simp add: powerup_step_def Let_def collect_def PowerUp_move_def BASE_SCROLL_SPEED_def)

text \<open>At difficulty speed 15, in slow motion and ghost mode.\<close>

theorem round_num_resets_speed_witness:
  "pu_type fix_powerup = ROUND_NUM
   \<and> current_difficulty_speed fast_session = 15
   \<and> powerup_step trunc_px (15 / 2) fix_powerup fast_session
       = (fast_session\<lparr>current_difficulty_speed := 5\<rparr>, None)"
proof -
  have h1: "pu_type fix_powerup = ROUND_NUM"
    by (simp add: fix_powerup_def)
  have h2: "colliderect (rect (player fast_session))
              (pu_rect (PowerUp_move trunc_px (15 / 2) fix_powerup))"
    by (simp add: fast_session_def fresh_def new_Player_def fix_powerup_def PowerUp_move_def
        colliderect_def right_def bottom_def trunc_px_def HEIGHT_def)
  have h3: "current_difficulty_speed fast_session = 15"
    by (simp add: fast_session_def)
  from round_num_resets_speed [OF h1 h2] h1 h3 show ?thesis
    by blast
qed

subsection \<open>Reset\<close>

lemma upt_3: "[0..<3] = [0, 1, 2]"
  by code_simp

text \<open>
  C8. The SPACE key in state LANDING_SCENE or GAME_OVER resets the session: the score
  is 0, the difficulty speed is the base speed 5, the four effect timers and the two
  spawn timers are 0, there is no power-up, the state is PLAYING, and the clouds are
  exactly the three of one new wall, at x = 1300, one in each of the three lanes of
  height 233.
\<close>

theorem reset_restores:
  assumes "state s = LANDING_SCENE \<or> state s = GAME_OVER"
  shows "\<exists>s'. handle_event e KEYDOWN_SPACE s = Inr s'
     \<and> score (player s') = 0 \<and> current_difficulty_speed s' = 5
     \<and> timer_slow_motion s' = 0 \<and> timer_ghost_mode s' = 0 \<and> timer_inverted s' = 0
     \<and> timer_rapid_fire s' = 0 \<and> timer_spawn_cloud s' = 0 \<and> timer_spawn_powerup s' = 0
     \<and> powerups s' = [] \<and> state s' = PLAYING
     \<and> clouds s' = clouds (spawn_cloud_wall e 200 (s'\<lparr>clouds := []\<rparr>))
     \<and> length (clouds s') = 3
     \<and> map (\<lambda>c. rect_x (cloud_rect c)) (clouds s') = [1300, 1300, 1300]
     \<and> map (\<lambda>c. rect_y (cloud_rect c) div 233) (clouds s') = [0, 1, 2]
     \<and> map (\<lambda>c. bottom (cloud_rect c) div 233) (clouds s') = [0, 1, 2]"
proof -
  have "handle_event e KEYDOWN_SPACE s = Inr (reset_game e s)"
    using assms by (auto simp: handle_event_def)
  then show ?thesis
    by (simp add: reset_game_def spawn_cloud_wall_def spawn_cloud_def bottom_def
        new_Player_def Let_def WIDTH_def HEIGHT_def BASE_SCROLL_SPEED_def upt_3)
qed

text \<open>From the landing scene of a won game, at score 50 and difficulty speed 18.\<close>

theorem reset_restores_witness:
  "state landed = LANDING_SCENE \<and> score (player landed) = 50
   \<and> (\<exists>s'. handle_event idle KEYDOWN_SPACE landed = Inr s'
         \<and> score (player s') = 0 \<and> current_difficulty_speed s' = 5
         \<and> powerups s' = [] \<and> state s' = PLAYING \<and> length (clouds s') = 3)"
proof -
  have h: "state landed = LANDING_SCENE" "score (player landed) = 50"
    by (simp_all add: landed_def)
  from reset_restores [of landed idle] h show ?thesis
    by blast
qed


subsection \<open>Spawn timers\<close>

lemma replicate_snoc: "replicate (n + 1) x = replicate n x @ [x]"
  by (simp add: replicate_append_same)

lemma idle_160:
  "frames trunc_px (replicate 160 idle) fresh =
     Inr (fresh\<lparr>timer_spawn_cloud := 160, timer_spawn_powerup := 160\<rparr>)"
  by code_simp

lemma idle_600:
  "frames trunc_px (replicate 600 idle) fresh =
     Inr (fresh\<lparr>player := new_Player\<lparr>score := 2\<rparr>,
                clouds := [cloud_at 510 56 ADD 1, cloud_at 510 289 ADD 1,
                           cloud_at 510 522 ADD 1],
                timer_spawn_cloud := 117, timer_spawn_powerup := 600\<rparr>)"
  by code_simp

text \<open>
  C9. The spawners fire one frame later than the claim says. From a session with both
  spawn timers at 0 and frames without input: after 160 frames the cloud timer is 160
  and there is no wall yet, the wall comes in frame 161, with the timer back at 0;
  after 600 frames the power-up timer is 600 and there is no power-up yet, the power-up
  comes in frame 601, with the timer back at 0. The periods are 161 and 601 frames.
\<close>

theorem spawners_fire_one_frame_late:
  "frames trunc_px (replicate 160 idle) fresh =
     Inr (fresh\<lparr>timer_spawn_cloud := 160, timer_spawn_powerup := 160\<rparr>)
   \<and> frames trunc_px (replicate (160 + 1) idle) fresh =
     Inr (fresh\<lparr>clouds := [cloud_at 1095 56 ADD 1, cloud_at 1095 289 ADD 1,
                           cloud_at 1095 522 ADD 1],
                timer_spawn_cloud := 0, timer_spawn_powerup := 161\<rparr>)
   \<and> frames trunc_px (replicate 600 idle) fresh =
     Inr (fresh\<lparr>player := new_Player\<lparr>score := 2\<rparr>,
                clouds := [cloud_at 510 56 ADD 1, cloud_at 510 289 ADD 1,
                           cloud_at 510 522 ADD 1],
                timer_spawn_cloud := 117, timer_spawn_powerup := 600\<rparr>)
   \<and> frames trunc_px (replicate (600 + 1) idle) fresh =
     Inr (fresh\<lparr>player := new_Player\<lparr>score := 2\<rparr>,
                clouds := [cloud_at 505 56 ADD 1, cloud_at 505 289 ADD 1,
                           cloud_at 505 522 ADD 1],
                powerups := [\<lparr>pu_rect = \<lparr>rect_x = 1045, rect_y = 50, rect_w = 40, rect_h = 40\<rparr>,
                              pu_type = SLOW_MOTION, angle = 5, hue = 5\<rparr>],
                timer_spawn_cloud := 118, timer_spawn_powerup := 0\<rparr>)"
proof (intro conjI)
  show "frames trunc_px (replicate (160 + 1) idle) fresh =
     Inr (fresh\<lparr>clouds := [cloud_at 1095 56 ADD 1, cloud_at 1095 289 ADD 1,
                           cloud_at 1095 522 ADD 1],
                timer_spawn_cloud := 0, timer_spawn_powerup := 161\<rparr>)"
    unfolding replicate_snoc frames_append idle_160
    by (simp add: frame_eval upt_3)
  show "frames trunc_px (replicate (600 + 1) idle) fresh =
     Inr (fresh\<lparr>player := new_Player\<lparr>score := 2\<rparr>,
                clouds := [cloud_at 505 56 ADD 1, cloud_at 505 289 ADD 1,
                           cloud_at 505 522 ADD 1],
                powerups := [\<lparr>pu_rect = \<lparr>rect_x = 1045, rect_y = 50, rect_w = 40, rect_h = 40\<rparr>,
                              pu_type = SLOW_MOTION, angle = 5, hue = 5\<rparr>],
                timer_spawn_cloud := 118, timer_spawn_powerup := 0\<rparr>)"
    unfolding replicate_snoc frames_append idle_600
    by (simp add: frame_eval)
qed (rule idle_160 idle_600)+


end
